theory Spec2Isabelle
  imports Main "HOL-Library.AList"
begin

section \<open>Domain model\<close>

text \<open>
  Identities are the opaque strings (UUIDs) the persistence layer assigns; nothing in the
  services inspects them, so they are numbers here. Timestamps (\<^verbatim>\<open>new Date()\<close>,
  \<^verbatim>\<open>Date.now()\<close>) are milliseconds, passed to every operation that reads the clock.
\<close>

type_synonym ident = nat
type_synonym timestamp = nat

datatype agentType = Learning | Assistant | Specialist

datatype agentStatus = AgentActive | AgentInactive

record agent =
  agent_id :: ident
  agent_name :: string
  agent_type :: agentType
  agent_description :: "string option"
  agent_status :: agentStatus
  agent_createdAt :: timestamp

datatype conversationStatus = Active | Completed | Terminated | Paused

record message =
  msg_id :: ident
  msg_conversationId :: ident
  msg_senderId :: ident
  msg_content :: string
  msg_recipients :: "ident list"
  msg_timestamp :: timestamp

record conversation =
  conv_id :: ident
  conv_name :: string
  conv_topic :: string
  conv_goal :: string
  conv_surrounding :: string
  conv_status :: conversationStatus
  conv_participants :: "ident list"
  conv_messages :: "message list"
  conv_startedAt :: timestamp
  conv_endedAt :: "timestamp option"
  conv_goalAchieved :: "bool option"

text \<open>\<^verbatim>\<open>recipients: 'all' | string[]\<close> of \<^verbatim>\<open>AddMessageDTO\<close>.\<close>

datatype recipients = All | Only "ident list"

record createConversationDTO =
  dto_name :: string
  dto_topic :: string
  dto_goal :: string
  dto_surrounding :: string
  dto_participantIds :: "ident list"

record addMessageDTO =
  am_conversationId :: ident
  am_senderId :: ident
  am_content :: string
  am_recipients :: recipients

record createAgentDTO =
  ca_name :: string
  ca_type :: agentType
  ca_status :: "agentStatus option"
  ca_description :: "string option"

text \<open>
  Every \<^verbatim>\<open>throw new Error(...)\<close> of the services is one of these kinds:
  \<^item> \<open>NotFound\<close>: "Conversation not found", "Agent not found";
  \<^item> \<open>DuplicateName\<close>: "A conversation with this name already exists",
    "An agent with this name already exists";
  \<^item> \<open>InvalidInput\<close>: "Agent name must be at least 3 characters long";
  \<^item> \<open>InvalidState\<close>: "Conversation is not active", "Only active conversations can be
    paused", "Only paused conversations can be unpaused", "Only active or paused
    conversations can be terminated", "Cannot add message to a non-active conversation",
    "Cannot delete an active agent";
  \<^item> \<open>InvalidParticipantCount\<close>: "A conversation must have between 2 and 10 participants";
  \<^item> \<open>AgentNotFound\<close>: "Agent ... not found" (a participant id that resolves to no agent);
  \<^item> \<open>AgentNotAvailable\<close>: "Agent ... is not inactive and cannot be added to a new
    conversation";
  \<^item> \<open>NotParticipant\<close>: "Sender is not a participant in this conversation";
  \<^item> \<open>InvalidRecipients\<close>: "Invalid recipients: ...";
  \<^item> \<open>UpdateFailed\<close>: "Failed to complete / pause / unpause / terminate conversation";
  \<^item> \<open>MalformedResponse\<close>: "Invalid response format";
  \<^item> \<open>UnknownSpeaker\<close>: "Agent ... not found in conversation. Available agents: ...";
  \<^item> \<open>NoResponse\<close>: "No response from OpenAI";
  \<^item> \<open>ContextMissing\<close>: "Conversation context not found", "Failed to initialize
    conversation context";
  \<^item> \<open>SenderUnknown\<close>: "Sender ... not found in conversation context";
  \<^item> \<open>ClientMissing\<close>: "OpenAI client is not initialized";
  \<^item> \<open>ProviderError\<close>: the external call itself rejects;
  \<^item> \<open>StoreError\<close>: a repository call itself rejects;
  \<^item> \<open>PromptFailed\<close>: the "press enter" prompt that closes \<^verbatim>\<open>viewConversationDetails\<close>
    rejects.
\<close>

datatype error =
    NotFound | DuplicateName | InvalidInput | InvalidState | InvalidParticipantCount
  | AgentNotFound | AgentNotAvailable | NotParticipant | InvalidRecipients | UpdateFailed
  | MalformedResponse | UnknownSpeaker | NoResponse | ContextMissing | SenderUnknown
  | ClientMissing | ProviderError | StoreError | PromptFailed


section \<open>Persistence\<close>

text \<open>
  Modelled from the spec: the classes \<^verbatim>\<open>AgentRepository\<close> and
  \<^verbatim>\<open>ConversationRepository\<close> (\<^verbatim>\<open>data/repositories\<close>) are not among the sources. The
  spec gives their interface: \<^verbatim>\<open>findAll|findById|findByName|create|update|delete\<close> over agent
  records, \<^verbatim>\<open>findAll|findById|findByName|create|update\<close> over conversation records plus
  \<^verbatim>\<open>getMessages(id)\<close> / \<^verbatim>\<open>addMessage(id, messageData)\<close> for the append-only log, a
  plain CRUD store. Records are kept in creation order; the store assigns identities from
  a counter; \<^verbatim>\<open>update(id, partial)\<close> rewrites the rows with that id and returns the row
  found afterwards (null when there is none); names are compared exactly.
\<close>

record store =
  agents :: "agent list"
  conversations :: "conversation list"
  next_id :: ident

definition agent_findAll :: "store \<Rightarrow> agent list" where
  "agent_findAll s = agents s"

definition agent_findById :: "store \<Rightarrow> ident \<Rightarrow> agent option" where
  "agent_findById s i = find (\<lambda>a. agent_id a = i) (agents s)"

definition agent_findByName :: "store \<Rightarrow> string \<Rightarrow> agent option" where
  "agent_findByName s n = find (\<lambda>a. agent_name a = n) (agents s)"

definition agent_create ::
  "string \<Rightarrow> agentType \<Rightarrow> agentStatus \<Rightarrow> string option \<Rightarrow> timestamp \<Rightarrow> store \<Rightarrow> agent \<times> store"
where
  "agent_create n ty st d now s =
     (let a = \<lparr>agent_id = next_id s, agent_name = n, agent_type = ty,
                agent_description = d, agent_status = st, agent_createdAt = now\<rparr>
      in (a, s\<lparr>agents := agents s @ [a], next_id := Suc (next_id s)\<rparr>))"

text \<open>\<^verbatim>\<open>agentRepository.update(id, { status })\<close>.\<close>

definition agent_update :: "ident \<Rightarrow> agentStatus \<Rightarrow> store \<Rightarrow> agent option \<times> store" where
  "agent_update i st s =
     (let s' = s\<lparr>agents := map (\<lambda>a. if agent_id a = i then a\<lparr>agent_status := st\<rparr> else a) (agents s)\<rparr>
      in (agent_findById s' i, s'))"

definition conv_findAll :: "store \<Rightarrow> conversation list" where
  "conv_findAll s = conversations s"

definition conv_findById :: "store \<Rightarrow> ident \<Rightarrow> conversation option" where
  "conv_findById s i = find (\<lambda>c. conv_id c = i) (conversations s)"

definition conv_findByName :: "store \<Rightarrow> string \<Rightarrow> conversation option" where
  "conv_findByName s n = find (\<lambda>c. conv_name c = n) (conversations s)"

text \<open>The record handed to \<^verbatim>\<open>create\<close> has no identity yet: its \<open>conv_id\<close> is overwritten.\<close>

definition conv_create :: "conversation \<Rightarrow> store \<Rightarrow> conversation \<times> store" where
  "conv_create c s =
     (let c' = c\<lparr>conv_id := next_id s\<rparr>
      in (c', s\<lparr>conversations := conversations s @ [c'], next_id := Suc (next_id s)\<rparr>))"

text \<open>
  The partial record of \<^verbatim>\<open>repository.update(id, {...})\<close>: the services always give
  \<^verbatim>\<open>status\<close>, and \<^verbatim>\<open>endedAt\<close> and \<^verbatim>\<open>goalAchieved\<close> only when a conversation ends.
\<close>

record conversationPatch =
  patch_status :: conversationStatus
  patch_endedAt :: "timestamp option"
  patch_goalAchieved :: "bool option"

definition applyPatch :: "conversationPatch \<Rightarrow> conversation \<Rightarrow> conversation" where
  "applyPatch p c =
     c\<lparr>conv_status := patch_status p,
       conv_endedAt := (case patch_endedAt p of None \<Rightarrow> conv_endedAt c | Some t \<Rightarrow> Some t),
       conv_goalAchieved :=
         (case patch_goalAchieved p of None \<Rightarrow> conv_goalAchieved c | Some g \<Rightarrow> Some g)\<rparr>"

definition conv_update :: "ident \<Rightarrow> conversationPatch \<Rightarrow> store \<Rightarrow> conversation option \<times> store" where
  "conv_update i p s =
     (let s' = s\<lparr>conversations := map (\<lambda>c. if conv_id c = i then applyPatch p c else c) (conversations s)\<rparr>
      in (conv_findById s' i, s'))"

definition conv_getMessages :: "store \<Rightarrow> ident \<Rightarrow> message list" where
  "conv_getMessages s i = (case conv_findById s i of None \<Rightarrow> [] | Some c \<Rightarrow> conv_messages c)"

text \<open>The message handed to \<^verbatim>\<open>addMessage\<close> has no identity yet: its \<open>msg_id\<close> is overwritten.\<close>

definition conv_addMessage :: "ident \<Rightarrow> message \<Rightarrow> store \<Rightarrow> message \<times> store" where
  "conv_addMessage i m s =
     (let m' = m\<lparr>msg_id := next_id s\<rparr>
      in (m', s\<lparr>conversations :=
                   map (\<lambda>c. if conv_id c = i then c\<lparr>conv_messages := conv_messages c @ [m']\<rparr> else c)
                     (conversations s),
                 next_id := Suc (next_id s)\<rparr>))"


section \<open>AgentService\<close>

definition isAgentNameTaken :: "store \<Rightarrow> string \<Rightarrow> bool" where
  "isAgentNameTaken s n = (agent_findByName s n \<noteq> None)"

text \<open>
  \<^verbatim>\<open>if (!data.name || data.name.length < 3)\<close>: the empty name is covered by the length test.
  \<^verbatim>\<open>status: data.status || 'inactive'\<close>.
\<close>

definition createAgent :: "createAgentDTO \<Rightarrow> timestamp \<Rightarrow> store \<Rightarrow> (error + agent) \<times> store" where
  "createAgent data now s =
     (if ca_name data = [] \<or> length (ca_name data) < 3 then (Inl InvalidInput, s)
      else if isAgentNameTaken s (ca_name data) then (Inl DuplicateName, s)
      else (case agent_create (ca_name data) (ca_type data)
                   (case ca_status data of None \<Rightarrow> AgentInactive | Some st \<Rightarrow> st)
                   (ca_description data) now s of
              (a, s') \<Rightarrow> (Inr a, s')))"


section \<open>ConversationService\<close>

definition isNameTaken :: "store \<Rightarrow> string \<Rightarrow> bool" where
  "isNameTaken s n = (conv_findByName s n \<noteq> None)"

text \<open>The first loop of \<^verbatim>\<open>createConversation\<close>: the first participant that is missing or
  not inactive decides the error.\<close>

fun checkParticipants :: "store \<Rightarrow> ident list \<Rightarrow> error option" where
  "checkParticipants s [] = None"
| "checkParticipants s (p # ps) =
     (case agent_findById s p of
        None \<Rightarrow> Some AgentNotFound
      | Some a \<Rightarrow>
          if agent_status a \<noteq> AgentInactive then Some AgentNotAvailable
          else checkParticipants s ps)"

text \<open>\<^verbatim>\<open>for (const participantId of ...) await this.agentRepository.update(participantId, { status })\<close>.\<close>

fun setParticipants :: "agentStatus \<Rightarrow> ident list \<Rightarrow> store \<Rightarrow> store" where
  "setParticipants st [] s = s"
| "setParticipants st (p # ps) s = setParticipants st ps (snd (agent_update p st s))"

text \<open>
  \<^verbatim>\<open>viewConversationDetails\<close> prints the conversation and awaits a "press enter" prompt. It
  reads and writes no state; the awaited prompt either resolves or rejects, which is given
  as \<open>promptResolves\<close>.
\<close>

definition viewConversationDetails :: "bool \<Rightarrow> conversation \<Rightarrow> error + unit" where
  "viewConversationDetails promptResolves conversation =
     (if promptResolves then Inr () else Inl PromptFailed)"

text \<open>\<^verbatim>\<open>createConversation\<close> awaits \<^verbatim>\<open>viewConversationDetails\<close> after the conversation
  is stored and the participants are reserved: a prompt that rejects fails the call with
  both writes made.\<close>

definition createConversation ::
  "createConversationDTO \<Rightarrow> timestamp \<Rightarrow> bool \<Rightarrow> store \<Rightarrow> (error + conversation) \<times> store"
where
  "createConversation data now promptResolves s =
     (if isNameTaken s (dto_name data) then (Inl DuplicateName, s)
      else if length (dto_participantIds data) < 2 \<or> length (dto_participantIds data) > 10
        then (Inl InvalidParticipantCount, s)
      else (case checkParticipants s (dto_participantIds data) of
              Some e \<Rightarrow> (Inl e, s)
            | None \<Rightarrow>
                (case conv_create
                        \<lparr>conv_id = 0, conv_name = dto_name data, conv_topic = dto_topic data,
                         conv_goal = dto_goal data, conv_surrounding = dto_surrounding data,
                         conv_status = Active, conv_participants = dto_participantIds data,
                         conv_messages = [], conv_startedAt = now, conv_endedAt = None,
                         conv_goalAchieved = Some False\<rparr> s of
                   (conversation, s1) \<Rightarrow>
                     (case viewConversationDetails promptResolves conversation of
                        Inl e \<Rightarrow>
                          (Inl e, setParticipants AgentActive (dto_participantIds data) s1)
                      | Inr u \<Rightarrow>
                          (Inr conversation,
                           setParticipants AgentActive (dto_participantIds data) s1)))))"

text \<open>Whether a listed participant stops the first loop of \<^verbatim>\<open>createConversation\<close>: it
  resolves to no agent, or to one that is not inactive.\<close>

definition unavailable :: "store \<Rightarrow> ident \<Rightarrow> bool" where
  "unavailable s p =
     (case agent_findById s p of None \<Rightarrow> True | Some a \<Rightarrow> agent_status a \<noteq> AgentInactive)"

definition addMessage :: "addMessageDTO \<Rightarrow> timestamp \<Rightarrow> store \<Rightarrow> (error + message) \<times> store" where
  "addMessage data now s =
     (case conv_findById s (am_conversationId data) of
        None \<Rightarrow> (Inl NotFound, s)
      | Some conversation \<Rightarrow>
          if conv_status conversation \<noteq> Active then (Inl InvalidState, s)
          else if am_senderId data \<notin> set (conv_participants conversation)
            then (Inl NotParticipant, s)
          else if (case am_recipients data of
                     All \<Rightarrow> False
                   | Only rs \<Rightarrow>
                       length (filter (\<lambda>r. r \<notin> set (conv_participants conversation)) rs) > 0)
            then (Inl InvalidRecipients, s)
          else (case conv_addMessage (am_conversationId data)
                       \<lparr>msg_id = 0, msg_conversationId = am_conversationId data,
                        msg_senderId = am_senderId data, msg_content = am_content data,
                        msg_recipients =
                          (case am_recipients data of
                             All \<Rightarrow> conv_participants conversation
                           | Only rs \<Rightarrow> rs),
                        msg_timestamp = now\<rparr> s of
                  (m, s') \<Rightarrow> (Inr m, s')))"

definition completeConversation ::
  "ident \<Rightarrow> bool \<Rightarrow> timestamp \<Rightarrow> store \<Rightarrow> (error + conversation) \<times> store"
where
  "completeConversation i goalAchieved now s =
     (case conv_findById s i of
        None \<Rightarrow> (Inl NotFound, s)
      | Some conversation \<Rightarrow>
          if conv_status conversation \<noteq> Active then (Inl InvalidState, s)
          else (case conv_update i
                       \<lparr>patch_status = Completed, patch_endedAt = Some now,
                        patch_goalAchieved = Some goalAchieved\<rparr>
                       (setParticipants AgentInactive (conv_participants conversation) s) of
                  (None, s') \<Rightarrow> (Inl UpdateFailed, s')
                | (Some updated, s') \<Rightarrow> (Inr updated, s')))"

definition pauseConversation :: "ident \<Rightarrow> store \<Rightarrow> (error + conversation) \<times> store" where
  "pauseConversation i s =
     (case conv_findById s i of
        None \<Rightarrow> (Inl NotFound, s)
      | Some conversation \<Rightarrow>
          if conv_status conversation \<noteq> Active then (Inl InvalidState, s)
          else (case conv_update i
                       \<lparr>patch_status = Paused, patch_endedAt = None, patch_goalAchieved = None\<rparr> s of
                  (None, s') \<Rightarrow> (Inl UpdateFailed, s')
                | (Some updated, s') \<Rightarrow> (Inr updated, s')))"

definition unpauseConversation :: "ident \<Rightarrow> store \<Rightarrow> (error + conversation) \<times> store" where
  "unpauseConversation i s =
     (case conv_findById s i of
        None \<Rightarrow> (Inl NotFound, s)
      | Some conversation \<Rightarrow>
          if conv_status conversation \<noteq> Paused then (Inl InvalidState, s)
          else (case conv_update i
                       \<lparr>patch_status = Active, patch_endedAt = None, patch_goalAchieved = None\<rparr> s of
                  (None, s') \<Rightarrow> (Inl UpdateFailed, s')
                | (Some updated, s') \<Rightarrow> (Inr updated, s')))"

definition terminateConversation ::
  "ident \<Rightarrow> timestamp \<Rightarrow> store \<Rightarrow> (error + conversation) \<times> store"
where
  "terminateConversation i now s =
     (case conv_findById s i of
        None \<Rightarrow> (Inl NotFound, s)
      | Some conversation \<Rightarrow>
          if conv_status conversation \<noteq> Active \<and> conv_status conversation \<noteq> Paused
            then (Inl InvalidState, s)
          else (case conv_update i
                       \<lparr>patch_status = Terminated, patch_endedAt = Some now,
                        patch_goalAchieved = Some False\<rparr>
                       (setParticipants AgentInactive (conv_participants conversation) s) of
                  (None, s') \<Rightarrow> (Inl UpdateFailed, s')
                | (Some updated, s') \<Rightarrow> (Inr updated, s')))"

definition getConversationMessages :: "ident \<Rightarrow> store \<Rightarrow> error + message list" where
  "getConversationMessages i s =
     (case conv_findById s i of
        None \<Rightarrow> Inl NotFound
      | Some conversation \<Rightarrow> Inr (conv_getMessages s i))"

text \<open>
  \<^verbatim>\<open>pauseAllConversations\<close> calls \<^verbatim>\<open>repository.update\<close> for every active conversation and
  ignores what it returns; nothing catches an error inside the loop. The repository is
  handed to the service through its constructor, so the loop is written over the update it
  is given: a call returns the updated row, returns null, or rejects (\<open>Inl\<close>), and a
  rejected call leaves the loop, as the exception would.
\<close>

type_synonym convUpdate =
  "ident \<Rightarrow> conversationPatch \<Rightarrow> store \<Rightarrow> (error + conversation option) \<times> store"

fun pauseEach :: "convUpdate \<Rightarrow> conversation list \<Rightarrow> store \<Rightarrow> (error + unit) \<times> store" where
  "pauseEach upd [] s = (Inr (), s)"
| "pauseEach upd (c # cs) s =
     (case upd (conv_id c)
             \<lparr>patch_status = Paused, patch_endedAt = None, patch_goalAchieved = None\<rparr> s of
        (Inl e, s') \<Rightarrow> (Inl e, s')
      | (Inr updated, s') \<Rightarrow> pauseEach upd cs s')"

definition pauseAllConversationsWith :: "convUpdate \<Rightarrow> store \<Rightarrow> (error + unit) \<times> store" where
  "pauseAllConversationsWith upd s =
     pauseEach upd (filter (\<lambda>c. conv_status c = Active) (conv_findAll s)) s"

text \<open>The update of the store of this theory never rejects.\<close>

definition storeUpdate :: convUpdate where
  "storeUpdate i p s = (case conv_update i p s of (r, s') \<Rightarrow> (Inr r, s'))"

definition pauseAllConversations :: "store \<Rightarrow> (error + unit) \<times> store" where
  "pauseAllConversations s = pauseAllConversationsWith storeUpdate s"

text \<open>Two stores that fail on the conversations \<open>F\<close>: one reports the failure as the code's
  other callers expect it (a null result, nothing written), the other rejects the call.\<close>

definition nullingUpdate :: "ident list \<Rightarrow> convUpdate" where
  "nullingUpdate F i p s = (if i \<in> set F then (Inr None, s) else storeUpdate i p s)"

definition rejectingUpdate :: "ident list \<Rightarrow> convUpdate" where
  "rejectingUpdate F i p s = (if i \<in> set F then (Inl StoreError, s) else storeUpdate i p s)"

definition pausedWhere :: "(conversation \<Rightarrow> bool) \<Rightarrow> store \<Rightarrow> store" where
  "pausedWhere Q s =
     s\<lparr>conversations := map (\<lambda>c. if Q c then c\<lparr>conv_status := Paused\<rparr> else c) (conversations s)\<rparr>"


section \<open>Sequences of lifecycle calls\<close>

datatype lifecycleCall =
    CreateConversation createConversationDTO timestamp bool
  | AddMessage addMessageDTO timestamp
  | CompleteConversation ident bool timestamp
  | PauseConversation ident
  | PauseAllConversations
  | UnpauseConversation ident
  | TerminateConversation ident timestamp

text \<open>The store after a call, whether it succeeded or was refused.\<close>

fun perform :: "lifecycleCall \<Rightarrow> store \<Rightarrow> store" where
  "perform (CreateConversation data now ok) s = snd (createConversation data now ok s)"
| "perform (AddMessage data now) s = snd (addMessage data now s)"
| "perform (CompleteConversation i g now) s = snd (completeConversation i g now s)"
| "perform (PauseConversation i) s = snd (pauseConversation i s)"
| "perform PauseAllConversations s = snd (pauseAllConversations s)"
| "perform (UnpauseConversation i) s = snd (unpauseConversation i s)"
| "perform (TerminateConversation i now) s = snd (terminateConversation i now s)"

definition performAll :: "lifecycleCall list \<Rightarrow> store \<Rightarrow> store" where
  "performAll calls s = fold perform calls s"

text \<open>A registry before its first conversation: every agent is inactive.\<close>

definition freshRegistry :: "store \<Rightarrow> bool" where
  "freshRegistry s \<longleftrightarrow> conversations s = [] \<and> (\<forall>a\<in>set (agents s). agent_status a = AgentInactive)"

definition nonTerminal :: "conversation \<Rightarrow> bool" where
  "nonTerminal c \<longleftrightarrow> conv_status c = Active \<or> conv_status c = Paused"

text \<open>What the reservation invariant reads of a conversation: its id, whether it is active
  or paused, and its participants.\<close>

definition cview :: "conversation \<Rightarrow> ident \<times> bool \<times> ident list" where
  "cview c = (conv_id c, nonTerminal c, conv_participants c)"

definition reservedIn :: "(ident \<times> bool \<times> ident list) list \<Rightarrow> ident \<Rightarrow> bool" where
  "reservedIn vs i \<longleftrightarrow> (\<exists>v\<in>set vs. fst (snd v) \<and> i \<in> set (snd (snd v)))"

definition invOn :: "agent list \<Rightarrow> (ident \<times> bool \<times> ident list) list \<Rightarrow> ident \<Rightarrow> bool" where
  "invOn ags vs n \<longleftrightarrow>
       (\<forall>a\<in>set ags. (agent_status a = AgentActive) = reservedIn vs (agent_id a))
     \<and> (\<forall>v\<in>set vs. fst v < n)
     \<and> distinct (map fst vs)
     \<and> (\<forall>v\<in>set vs. \<forall>w\<in>set vs.
           fst (snd v) \<and> fst (snd w) \<and> set (snd (snd v)) \<inter> set (snd (snd w)) \<noteq> {}
           \<longrightarrow> fst v = fst w)"

definition reservationInv :: "store \<Rightarrow> bool" where
  "reservationInv s \<longleftrightarrow> invOn (agents s) (map cview (conversations s)) (next_id s)"


section \<open>OpenAIService: the generation driver\<close>

record participantInfo =
  p_id :: ident
  p_name :: string
  p_type :: agentType
  p_description :: "string option"

record conversationContext =
  ctx_topic :: string
  ctx_goal :: string
  ctx_surrounding :: string
  ctx_participants :: "participantInfo list"
  ctx_messageCount :: nat

text \<open>The fields of the service; \<open>hasClient\<close> is \<^verbatim>\<open>this.openai !== null\<close>, and the map of
  contexts is an association list keyed by conversation id.\<close>

record driver =
  hasClient :: bool
  conversationContexts :: "(ident \<times> conversationContext) list"
  messageCheckThreshold :: nat
  consecutiveErrors :: nat
  maxConsecutiveErrors :: nat
  isEnabled :: bool
  disabledReason :: "string option"

text \<open>
  The external text-generation call either rejects or answers with a content that may be
  absent. The prompt sent to it (the system prompt with the agents' styles, the last
  messages) is read by the provider only and is not modelled; the provider's outcomes are
  given in the order of the calls, and a provider with nothing left to say rejects.
\<close>

datatype llmOutcome = Rejects | Replies "string option"

record world =
  w_store :: store
  w_driver :: driver
  w_llm :: "llmOutcome list"

definition chatCompletion :: "world \<Rightarrow> llmOutcome \<times> world" where
  "chatCompletion w = (case w_llm w of [] \<Rightarrow> (Rejects, w) | r # rs \<Rightarrow> (r, w\<lparr>w_llm := rs\<rparr>))"

definition disableService :: "string \<Rightarrow> driver \<Rightarrow> driver" where
  "disableService reason d = d\<lparr>isEnabled := False, disabledReason := Some reason\<rparr>"

text \<open>The constructor: \<^verbatim>\<open>messageCheckThreshold = config.GOAL_CHECK_INTERVAL\<close>,
  \<^verbatim>\<open>maxConsecutiveErrors = 10\<close>, and a missing (or empty) API key disables the service.
  The client library's own constructor is taken not to throw.\<close>

definition newOpenAIService :: "string option \<Rightarrow> nat \<Rightarrow> driver" where
  "newOpenAIService apiKey goalCheckInterval =
     (let d = \<lparr>hasClient = False, conversationContexts = [],
                messageCheckThreshold = goalCheckInterval, consecutiveErrors = 0,
                maxConsecutiveErrors = 10, isEnabled = True, disabledReason = None\<rparr>
      in if apiKey = None \<or> apiKey = Some []
         then disableService
                (''OpenAI API key is missing. Agents cannot communicate. ''
                 @ ''Please check your .env file and add OPENAI_API_KEY.'') d
         else d\<lparr>hasClient := True\<rparr>)"

definition getStatus :: "driver \<Rightarrow> bool \<times> string option" where
  "getStatus d = (isEnabled d, disabledReason d)"

definition handleApiError :: "driver \<Rightarrow> driver" where
  "handleApiError d =
     (let d1 = d\<lparr>consecutiveErrors := consecutiveErrors d + 1\<rparr>
      in if consecutiveErrors d1 \<ge> maxConsecutiveErrors d1
         then disableService ''Too many consecutive API errors. Service temporarily disabled.'' d1
         else d1)"

definition resetErrorCount :: "driver \<Rightarrow> driver" where
  "resetErrorCount d = d\<lparr>consecutiveErrors := 0\<rparr>"

text \<open>\<^verbatim>\<open>initializeConversation\<close>: every participant is resolved to an agent, or the call
  fails.\<close>

fun resolveParticipants :: "store \<Rightarrow> ident list \<Rightarrow> error + participantInfo list" where
  "resolveParticipants s [] = Inr []"
| "resolveParticipants s (i # rest) =
     (case agent_findById s i of
        None \<Rightarrow> Inl AgentNotFound
      | Some agent \<Rightarrow>
          (case resolveParticipants s rest of
             Inl e \<Rightarrow> Inl e
           | Inr ps \<Rightarrow>
               Inr (\<lparr>p_id = agent_id agent, p_name = agent_name agent, p_type = agent_type agent,
                     p_description = agent_description agent\<rparr> # ps)))"

definition initializeConversation :: "conversation \<Rightarrow> world \<Rightarrow> (error + unit) \<times> world" where
  "initializeConversation conversation w =
     (case resolveParticipants (w_store w) (conv_participants conversation) of
        Inl e \<Rightarrow> (Inl e, w)
      | Inr participants \<Rightarrow>
          (Inr (),
           w\<lparr>w_driver := (w_driver w)
               \<lparr>conversationContexts :=
                  AList.update (conv_id conversation)
                    \<lparr>ctx_topic = conv_topic conversation, ctx_goal = conv_goal conversation,
                     ctx_surrounding = conv_surrounding conversation,
                     ctx_participants = participants, ctx_messageCount = 0\<rparr>
                    (conversationContexts (w_driver w))\<rparr>\<rparr>))"

subsection \<open>Strings\<close>

text \<open>\<^verbatim>\<open>toLowerCase\<close>, \<^verbatim>\<open>trim\<close> and \<^verbatim>\<open>includes\<close> on text of 8-bit characters (the
  first 256 code points: the letters \<open>A\<close> to \<open>Z\<close> and the capitals U+00C0 to U+00DE, U+00D7
  apart, have a lower case 32 places on; the white space is the six ASCII characters and
  U+00A0), and \<^verbatim>\<open>slice(-n)\<close>.\<close>

definition toLowerChar :: "char \<Rightarrow> char" where
  "toLowerChar c =
     (case map_of (zip (''ABCDEFGHIJKLMNOPQRSTUVWXYZ'' @
                          [CHR 0xC0, CHR 0xC1, CHR 0xC2, CHR 0xC3, CHR 0xC4, CHR 0xC5, CHR 0xC6, CHR 0xC7,
                           CHR 0xC8, CHR 0xC9, CHR 0xCA, CHR 0xCB, CHR 0xCC, CHR 0xCD, CHR 0xCE, CHR 0xCF,
                           CHR 0xD0, CHR 0xD1, CHR 0xD2, CHR 0xD3, CHR 0xD4, CHR 0xD5, CHR 0xD6, CHR 0xD8,
                           CHR 0xD9, CHR 0xDA, CHR 0xDB, CHR 0xDC, CHR 0xDD, CHR 0xDE])
                       (''abcdefghijklmnopqrstuvwxyz'' @
                          [CHR 0xE0, CHR 0xE1, CHR 0xE2, CHR 0xE3, CHR 0xE4, CHR 0xE5, CHR 0xE6, CHR 0xE7,
                           CHR 0xE8, CHR 0xE9, CHR 0xEA, CHR 0xEB, CHR 0xEC, CHR 0xED, CHR 0xEE, CHR 0xEF,
                           CHR 0xF0, CHR 0xF1, CHR 0xF2, CHR 0xF3, CHR 0xF4, CHR 0xF5, CHR 0xF6, CHR 0xF8,
                           CHR 0xF9, CHR 0xFA, CHR 0xFB, CHR 0xFC, CHR 0xFD, CHR 0xFE])) c of
        None \<Rightarrow> c
      | Some l \<Rightarrow> l)"

definition toLowerCase :: "string \<Rightarrow> string" where
  "toLowerCase s = map toLowerChar s"

definition isSpace :: "char \<Rightarrow> bool" where
  "isSpace c \<longleftrightarrow> c \<in> set [CHR 0x20, CHR 0x09, CHR 0x0A, CHR 0x0B, CHR 0x0C, CHR 0x0D, CHR 0xA0]"

definition trim :: "string \<Rightarrow> string" where
  "trim s = rev (dropWhile isSpace (rev (dropWhile isSpace s)))"

fun strIncludes :: "string \<Rightarrow> string \<Rightarrow> bool" where
  "strIncludes [] sub = (sub = [])"
| "strIncludes (c # cs) sub = (take (length sub) (c # cs) = sub \<or> strIncludes cs sub)"

definition lastN :: "nat \<Rightarrow> 'a list \<Rightarrow> 'a list" where
  "lastN n xs = drop (length xs - n) xs"

text \<open>
  \<^verbatim>\<open>parseResponse\<close> matches \<^verbatim>\<open>/^([^:]+):\s*(.+)$/s\<close>: a non-empty name up to the first
  colon, then white space, then at least one character up to the end of the text (when all
  that follows the colon is white space, its last character is the content). The speaker is
  the first participant whose lower-cased, trimmed name is the lower-cased, trimmed name of
  the reply.
\<close>

definition parseResponse :: "string \<Rightarrow> participantInfo list \<Rightarrow> error + (ident \<times> string)" where
  "parseResponse response participants =
     (let agentName = takeWhile (\<lambda>c. c \<noteq> CHR '':'') response;
          rest = drop (Suc (length agentName)) response
      in if agentName = [] \<or> length agentName = length response \<or> rest = []
         then Inl MalformedResponse
         else
           (let content = (if dropWhile isSpace rest = [] then [last rest] else dropWhile isSpace rest)
            in case find (\<lambda>p. trim (toLowerCase (p_name p)) = trim (toLowerCase agentName))
                      participants of
                 None \<Rightarrow> Inl UnknownSpeaker
               | Some agent \<Rightarrow> Inr (p_id agent, trim content)))"

subsection \<open>Goal evaluation\<close>

text \<open>Whether every message has a sender among the context's participants: formatting a
  message of another sender throws.\<close>

definition sendersKnown :: "conversationContext \<Rightarrow> message list \<Rightarrow> bool" where
  "sendersKnown c ms \<longleftrightarrow>
     (\<forall>m\<in>set ms. find (\<lambda>p. p_id p = msg_senderId m) (ctx_participants c) \<noteq> None)"

definition checkGoalAchievement :: "ident \<Rightarrow> world \<Rightarrow> (error + bool) \<times> world" where
  "checkGoalAchievement conversationId w =
     (if \<not> hasClient (w_driver w) then (Inl ClientMissing, w)
      else (case map_of (conversationContexts (w_driver w)) conversationId of
              None \<Rightarrow> (Inl ContextMissing, w)
            | Some c \<Rightarrow>
                (case conv_findById (w_store w) conversationId of
                   None \<Rightarrow> (Inl NotFound, w)
                 | Some conversation \<Rightarrow>
                     (case getConversationMessages conversationId (w_store w) of
                        Inl e \<Rightarrow> (Inl e, w)
                      | Inr messages \<Rightarrow>
                          if \<not> sendersKnown c (lastN 10 messages) then (Inl SenderUnknown, w)
                          else (case chatCompletion w of
                                  (Rejects, w') \<Rightarrow> (Inl ProviderError, w')
                                | (Replies content, w') \<Rightarrow>
                                    (Inr (strIncludes
                                            (case content of
                                               None \<Rightarrow> ''no''
                                             | Some text \<Rightarrow>
                                                 if text = [] then ''no'' else toLowerCase text)
                                            ''yes''),
                                     w'))))))"

subsection \<open>One generation step\<close>

text \<open>The context of the conversation, initialised when there is none, with its message
  count incremented (\<^verbatim>\<open>context.messageCount++\<close> on the object held in the map).\<close>

definition touchContext :: "conversation \<Rightarrow> world \<Rightarrow> (error + conversationContext) \<times> world" where
  "touchContext conversation w =
     (case (case map_of (conversationContexts (w_driver w)) (conv_id conversation) of
              Some c \<Rightarrow> (Inr c, w)
            | None \<Rightarrow>
                (case initializeConversation conversation w of
                   (Inl e, w1) \<Rightarrow> (Inl e, w1)
                 | (Inr u, w1) \<Rightarrow>
                     (case map_of (conversationContexts (w_driver w1)) (conv_id conversation) of
                        None \<Rightarrow> (Inl ContextMissing, w1)
                      | Some c \<Rightarrow> (Inr c, w1)))) of
        (Inl e, w1) \<Rightarrow> (Inl e, w1)
      | (Inr c, w1) \<Rightarrow>
          (let c' = c\<lparr>ctx_messageCount := ctx_messageCount c + 1\<rparr>
           in (Inr c',
               w1\<lparr>w_driver := (w_driver w1)
                    \<lparr>conversationContexts :=
                       AList.update (conv_id conversation) c' (conversationContexts (w_driver w1))\<rparr>\<rparr>)))"

text \<open>What follows the increment inside the \<^verbatim>\<open>try\<close> block: the last five messages are
  formatted, the provider is called, the reply is parsed, the message is added for all
  participants and, every \<open>messageCheckThreshold\<close> messages, the goal is evaluated.\<close>

definition generate ::
  "timestamp \<Rightarrow> conversation \<Rightarrow> conversationContext \<Rightarrow> world \<Rightarrow> (error + unit) \<times> world"
where
  "generate now conversation c w =
     (case getConversationMessages (conv_id conversation) (w_store w) of
        Inl e \<Rightarrow> (Inl e, w)
      | Inr messages \<Rightarrow>
          if \<not> sendersKnown c (lastN 5 messages) then (Inl SenderUnknown, w)
          else (case chatCompletion w of
                  (Rejects, w1) \<Rightarrow> (Inl ProviderError, w1)
                | (Replies None, w1) \<Rightarrow> (Inl NoResponse, w1)
                | (Replies (Some content), w1) \<Rightarrow>
                    if content = [] then (Inl NoResponse, w1)
                    else (case parseResponse content (ctx_participants c) of
                            Inl e \<Rightarrow> (Inl e, w1)
                          | Inr (senderId, messageContent) \<Rightarrow>
                              (case addMessage
                                      \<lparr>am_conversationId = conv_id conversation,
                                       am_senderId = senderId, am_content = messageContent,
                                       am_recipients = All\<rparr> now (w_store w1) of
                                 (Inl e, st) \<Rightarrow> (Inl e, w1\<lparr>w_store := st\<rparr>)
                               | (Inr m, st) \<Rightarrow>
                                   if messageCheckThreshold (w_driver w1) \<noteq> 0
                                      \<and> ctx_messageCount c mod messageCheckThreshold (w_driver w1) = 0
                                   then (case checkGoalAchievement (conv_id conversation)
                                                (w1\<lparr>w_store := st\<rparr>) of
                                           (Inl e, w2) \<Rightarrow> (Inl e, w2)
                                         | (Inr goalAchieved, w2) \<Rightarrow>
                                             if goalAchieved
                                             then (case completeConversation (conv_id conversation)
                                                          True now (w_store w2) of
                                                     (Inl e, st2) \<Rightarrow> (Inl e, w2\<lparr>w_store := st2\<rparr>)
                                                   | (Inr done, st2) \<Rightarrow> (Inr (), w2\<lparr>w_store := st2\<rparr>))
                                             else (Inr (), w2))
                                   else (Inr (), w1\<lparr>w_store := st\<rparr>)))))"

text \<open>The body of the \<^verbatim>\<open>try\<close> block of \<^verbatim>\<open>processMessage\<close>; it ends with
  \<^verbatim>\<open>resetErrorCount()\<close>.\<close>

definition processMessageTry ::
  "timestamp \<Rightarrow> conversation \<Rightarrow> world \<Rightarrow> (error + unit) \<times> world"
where
  "processMessageTry now conversation w =
     (case touchContext conversation w of
        (Inl e, w1) \<Rightarrow> (Inl e, w1)
      | (Inr c, w1) \<Rightarrow>
          (case generate now conversation c w1 of
             (Inl e, w2) \<Rightarrow> (Inl e, w2)
           | (Inr u, w2) \<Rightarrow> (Inr (), w2\<lparr>w_driver := resetErrorCount (w_driver w2)\<rparr>)))"

text \<open>\<^verbatim>\<open>processMessage(message, conversation)\<close>; the body never reads \<^verbatim>\<open>message\<close>.\<close>

definition processMessage :: "timestamp \<Rightarrow> message \<Rightarrow> conversation \<Rightarrow> world \<Rightarrow> world" where
  "processMessage now message conversation w =
     (if \<not> isEnabled (w_driver w) \<or> \<not> hasClient (w_driver w) then w
      else (case processMessageTry now conversation w of
              (Inl e, w') \<Rightarrow> w'\<lparr>w_driver := handleApiError (w_driver w')\<rparr>
            | (Inr u, w') \<Rightarrow> w'))"

text \<open>Whether the step about to be made on a conversation evaluates the goal: the message
  count it will have reached is a multiple of the threshold.\<close>

definition goalCheckDue :: "conversation \<Rightarrow> world \<Rightarrow> bool" where
  "goalCheckDue conversation w \<longleftrightarrow>
     messageCheckThreshold (w_driver w) \<noteq> 0
   \<and> (case map_of (conversationContexts (w_driver w)) (conv_id conversation) of
         None \<Rightarrow> 1
       | Some c \<Rightarrow> ctx_messageCount c + 1) mod messageCheckThreshold (w_driver w) = 0"

subsection \<open>processActiveConversations\<close>

definition agentTypeName :: "agentType \<Rightarrow> string" where
  "agentTypeName ty = (case ty of Learning \<Rightarrow> ''learning'' | Assistant \<Rightarrow> ''assistant''
                        | Specialist \<Rightarrow> ''specialist'')"

definition openingMessage :: "agent \<Rightarrow> conversation \<Rightarrow> string" where
  "openingMessage a conversation =
     ''As a '' @ agentTypeName (agent_type a)
     @ (case agent_description a of
          None \<Rightarrow> []
        | Some d \<Rightarrow> if d = [] then [] else '' who '' @ d)
     @ '', I'' @ [CHR 0x27] @ ''d like to begin our discussion about '' @ conv_topic conversation
     @ ''. Our goal is to '' @ conv_goal conversation
     @ ''. Let'' @ [CHR 0x27] @ ''s work together to achieve this.''"

text \<open>The loop over the active conversations: one without messages gets the opening
  message of its first participant, any other gets a generation step. An error thrown by
  \<^verbatim>\<open>addMessage\<close> or \<^verbatim>\<open>getConversationMessages\<close> leaves the loop.\<close>

fun processEach :: "timestamp \<Rightarrow> conversation list \<Rightarrow> world \<Rightarrow> (error + unit) \<times> world" where
  "processEach now [] w = (Inr (), w)"
| "processEach now (conversation # rest) w =
     (case getConversationMessages (conv_id conversation) (w_store w) of
        Inl e \<Rightarrow> (Inl e, w)
      | Inr messages \<Rightarrow>
          if length messages = 0
          then (case conv_participants conversation of
                  [] \<Rightarrow> processEach now rest w
                | firstAgent # others \<Rightarrow>
                    (case agent_findById (w_store w) firstAgent of
                       None \<Rightarrow> processEach now rest w
                     | Some agent \<Rightarrow>
                         (case addMessage
                                 \<lparr>am_conversationId = conv_id conversation,
                                  am_senderId = firstAgent,
                                  am_content = openingMessage agent conversation,
                                  am_recipients = All\<rparr> now (w_store w) of
                            (Inl e, st) \<Rightarrow> (Inl e, w\<lparr>w_store := st\<rparr>)
                          | (Inr m, st) \<Rightarrow> processEach now rest (w\<lparr>w_store := st\<rparr>))))
          else processEach now rest (processMessage now (last messages) conversation w))"

definition processActiveConversations :: "timestamp \<Rightarrow> world \<Rightarrow> world" where
  "processActiveConversations now w =
     (if \<not> isEnabled (w_driver w) \<or> \<not> hasClient (w_driver w) then w
      else (case processEach now (filter (\<lambda>c. conv_status c = Active) (conv_findAll (w_store w))) w of
              (Inl e, w') \<Rightarrow> w'\<lparr>w_driver := handleApiError (w_driver w')\<rparr>
            | (Inr u, w') \<Rightarrow> w'))"


section \<open>BackgroundService: the scheduler\<close>

text \<open>\<open>running\<close> is \<^verbatim>\<open>this.intervalId !== undefined\<close>; the map of last message times is an
  association list keyed by conversation id.\<close>

record backgroundService =
  running :: bool
  isProcessing :: bool
  processInterval :: nat
  lastMessageTime :: "(ident \<times> timestamp) list"

definition newBackgroundService :: "nat \<Rightarrow> backgroundService" where
  "newBackgroundService agentResponseInterval =
     \<lparr>running = False, isProcessing = False, processInterval = agentResponseInterval,
      lastMessageTime = []\<rparr>"

definition start :: "backgroundService \<Rightarrow> backgroundService" where
  "start b = (if running b then b else b\<lparr>running := True\<rparr>)"

definition stop :: "backgroundService \<Rightarrow> backgroundService" where
  "stop b = (if running b then b\<lparr>running := False, lastMessageTime := []\<rparr> else b)"

text \<open>The loop of \<^verbatim>\<open>processConversations\<close> over the conversations that were active when
  the sweep began; \<^verbatim>\<open>this.lastMessageTime.get(id) || 0\<close>.\<close>

fun sweep ::
  "timestamp \<Rightarrow> conversation list \<Rightarrow> backgroundService \<times> world
   \<Rightarrow> (error + unit) \<times> backgroundService \<times> world"
where
  "sweep now [] bw = (Inr (), bw)"
| "sweep now (conversation # rest) (b, w) =
     (let lastTime = (case map_of (lastMessageTime b) (conv_id conversation) of
                        None \<Rightarrow> 0 | Some t \<Rightarrow> t);
          timeSinceLastMessage = int now - int lastTime
      in if timeSinceLastMessage \<ge> int (processInterval b)
         then (case getConversationMessages (conv_id conversation) (w_store w) of
                 Inl e \<Rightarrow> (Inl e, (b, w))
               | Inr messages \<Rightarrow>
                   if length messages = 0
                   then sweep now rest
                          (b\<lparr>lastMessageTime :=
                               AList.update (conv_id conversation) now (lastMessageTime b)\<rparr>,
                           processActiveConversations now w)
                   else sweep now rest
                          (b\<lparr>lastMessageTime :=
                               AList.update (conv_id conversation) now (lastMessageTime b)\<rparr>,
                           processMessage now (last messages) conversation w))
         else sweep now rest (b, w))"

text \<open>An error that leaves the loop is caught and logged.\<close>

definition processConversations ::
  "timestamp \<Rightarrow> backgroundService \<times> world \<Rightarrow> backgroundService \<times> world"
where
  "processConversations now bw =
     snd (sweep now (filter (\<lambda>c. conv_status c = Active) (conv_findAll (w_store (snd bw)))) bw)"

text \<open>The timer callback, run to its end: a tick that finds a sweep in progress returns at
  once.\<close>

definition tick :: "timestamp \<Rightarrow> backgroundService \<times> world \<Rightarrow> backgroundService \<times> world" where
  "tick now bw =
     (if isProcessing (fst bw) then bw
      else (case processConversations now ((fst bw)\<lparr>isProcessing := True\<rparr>, snd bw) of
              (b', w') \<Rightarrow> (b'\<lparr>isProcessing := False\<rparr>, w')))"

section \<open>Example states\<close>

text \<open>Two agents, and the stores before a conversation between them, while it runs, while
  it is paused and after it was terminated.\<close>

definition alice :: agent where
  "alice = \<lparr>agent_id = 1, agent_name = ''alice'', agent_type = Learning,
            agent_description = None, agent_status = AgentInactive, agent_createdAt = 0\<rparr>"

definition bob :: agent where
  "bob = \<lparr>agent_id = 2, agent_name = ''bob'', agent_type = Assistant,
          agent_description = Some ''helps'', agent_status = AgentInactive, agent_createdAt = 0\<rparr>"

definition talkDTO :: createConversationDTO where
  "talkDTO = \<lparr>dto_name = ''T'', dto_topic = ''X'', dto_goal = ''agree on X'',
               dto_surrounding = ''a room'', dto_participantIds = [1, 2]\<rparr>"

definition talk :: conversation where
  "talk = \<lparr>conv_id = 3, conv_name = ''T'', conv_topic = ''X'', conv_goal = ''agree on X'',
            conv_surrounding = ''a room'', conv_status = Active, conv_participants = [1, 2],
            conv_messages = [], conv_startedAt = 10, conv_endedAt = None,
            conv_goalAchieved = Some False\<rparr>"

definition idleStore :: store where
  "idleStore = \<lparr>agents = [alice, bob], conversations = [], next_id = 3\<rparr>"

definition busyStore :: store where
  "busyStore = \<lparr>agents = [alice\<lparr>agent_status := AgentActive\<rparr>, bob\<lparr>agent_status := AgentActive\<rparr>],
                 conversations = [talk], next_id = 4\<rparr>"

definition pausedStore :: store where
  "pausedStore = busyStore\<lparr>conversations := [talk\<lparr>conv_status := Paused\<rparr>]\<rparr>"

definition endedStore :: store where
  "endedStore = \<lparr>agents = [alice, bob],
                  conversations = [talk\<lparr>conv_status := Terminated, conv_endedAt := Some 20\<rparr>],
                  next_id = 4\<rparr>"

definition hello :: addMessageDTO where
  "hello = \<lparr>am_conversationId = 3, am_senderId = 1, am_content = ''hello'', am_recipients = All\<rparr>"

definition helloMsg :: message where
  "helloMsg = \<lparr>msg_id = 4, msg_conversationId = 3, msg_senderId = 1, msg_content = ''hello'',
               msg_recipients = [1, 2], msg_timestamp = 15\<rparr>"

definition chattingStore :: store where
  "chattingStore = busyStore\<lparr>conversations := [talk\<lparr>conv_messages := [helloMsg]\<rparr>], next_id := 5\<rparr>"

definition carolDTO :: createAgentDTO where
  "carolDTO = \<lparr>ca_name = ''carol'', ca_type = Specialist, ca_status = None, ca_description = None\<rparr>"

text \<open>Two more agents and a second conversation, which already has a message.\<close>

definition carol :: agent where
  "carol = \<lparr>agent_id = 5, agent_name = ''carol'', agent_type = Specialist,
            agent_description = None, agent_status = AgentActive, agent_createdAt = 0\<rparr>"

definition dave :: agent where
  "dave = \<lparr>agent_id = 6, agent_name = ''Dave'', agent_type = Learning,
           agent_description = Some ''asks'', agent_status = AgentActive, agent_createdAt = 0\<rparr>"

definition meetMsg :: message where
  "meetMsg = \<lparr>msg_id = 8, msg_conversationId = 7, msg_senderId = 5, msg_content = ''shall we?'',
              msg_recipients = [5, 6], msg_timestamp = 12\<rparr>"

definition meet :: conversation where
  "meet = \<lparr>conv_id = 7, conv_name = ''M'', conv_topic = ''Y'', conv_goal = ''agree on Y'',
            conv_surrounding = ''a hall'', conv_status = Active, conv_participants = [5, 6],
            conv_messages = [meetMsg], conv_startedAt = 11, conv_endedAt = None,
            conv_goalAchieved = Some False\<rparr>"

definition twoTalks :: store where
  "twoTalks = \<lparr>agents = [alice\<lparr>agent_status := AgentActive\<rparr>, bob\<lparr>agent_status := AgentActive\<rparr>,
                          carol, dave],
                conversations = [talk, meet], next_id = 9\<rparr>"

text \<open>A driver as the constructor leaves it, the context of the second conversation after
  one step, and worlds over the store with two conversations.\<close>

definition readyDriver :: driver where
  "readyDriver = newOpenAIService (Some ''key'') 50"

definition meetCtx :: conversationContext where
  "meetCtx = \<lparr>ctx_topic = ''Y'', ctx_goal = ''agree on Y'', ctx_surrounding = ''a hall'',
              ctx_participants =
                [\<lparr>p_id = 5, p_name = ''carol'', p_type = Specialist, p_description = None\<rparr>,
                 \<lparr>p_id = 6, p_name = ''Dave'', p_type = Learning, p_description = Some ''asks''\<rparr>],
              ctx_messageCount = 1\<rparr>"

definition chatWorld :: "driver \<Rightarrow> llmOutcome list \<Rightarrow> world" where
  "chatWorld d script = \<lparr>w_store = twoTalks, w_driver = d, w_llm = script\<rparr>"

definition daveMsg :: message where
  "daveMsg = \<lparr>msg_id = 9, msg_conversationId = 7, msg_senderId = 6, msg_content = ''fine'',
              msg_recipients = [5, 6], msg_timestamp = 100\<rparr>"

text \<open>A scheduler with a minimum interval of 1000 ms that advanced the second conversation
  at time 4999, and one that has advanced nothing yet.\<close>

definition busyScheduler :: backgroundService where
  "busyScheduler = (start (newBackgroundService 1000))\<lparr>lastMessageTime := [(7, 4999)]\<rparr>"

definition newScheduler :: backgroundService where
  "newScheduler = start (newBackgroundService 1000)"

section \<open>Facts about the store\<close>

lemmas example_defs = alice_def bob_def talkDTO_def talk_def idleStore_def busyStore_def
  pausedStore_def endedStore_def

lemmas repo_defs = agent_findById_def agent_findByName_def agent_update_def agent_create_def
  conv_findById_def conv_findByName_def conv_update_def conv_create_def conv_addMessage_def
  conv_getMessages_def conv_findAll_def agent_findAll_def applyPatch_def Let_def

lemma find_map_key:
  assumes "\<And>x. key (g x) = key x"
  shows "find (\<lambda>x. key x = i) (map g xs) = map_option g (find (\<lambda>x. key x = i) xs)"
  using assms by (induction xs) auto

lemma find_map_upd:
  assumes "\<And>x. key (f x) = key x"
  shows "find (\<lambda>x. key x = i) (map (\<lambda>x. if key x = i then f x else x) xs)
         = map_option f (find (\<lambda>x. key x = i) xs)"
  using assms by (induction xs) auto

lemma find_map_other:
  assumes "\<And>x. key (f x) = key x" and "j \<noteq> i"
  shows "find (\<lambda>x. key x = i) (map (\<lambda>x. if key x = j then f x else x) xs)
         = find (\<lambda>x. key x = i) xs"
  using assms by (induction xs) auto

lemma distinct_key_eq:
  "distinct (map key xs) \<Longrightarrow> x \<in> set xs \<Longrightarrow> y \<in> set xs \<Longrightarrow> key x = key y \<Longrightarrow> x = y"
  by (auto simp: distinct_map dest: inj_onD)

lemma conv_id_applyPatch [simp]: "conv_id (applyPatch p c) = conv_id c"
  by (simp add: applyPatch_def)

lemma conv_participants_applyPatch [simp]: "conv_participants (applyPatch p c) = conv_participants c"
  by (simp add: applyPatch_def)

lemma conv_status_applyPatch [simp]: "conv_status (applyPatch p c) = patch_status p"
  by (simp add: applyPatch_def)

lemma applyPatch_status_only:
  "applyPatch \<lparr>patch_status = st, patch_endedAt = None, patch_goalAchieved = None\<rparr> c
   = c\<lparr>conv_status := st\<rparr>"
  by (simp add: applyPatch_def)

lemma conv_findById_SomeD:
  "conv_findById s i = Some c \<Longrightarrow> c \<in> set (conversations s) \<and> conv_id c = i"
  by (auto simp: conv_findById_def find_Some_iff)

lemma agent_findById_SomeD:
  "agent_findById s i = Some a \<Longrightarrow> a \<in> set (agents s) \<and> agent_id a = i"
  by (auto simp: agent_findById_def find_Some_iff)

lemma conv_update_found:
  assumes "conv_findById s i = Some c"
  shows "fst (conv_update i p s) = Some (applyPatch p c)"
    and "conv_findById (snd (conv_update i p s)) i = Some (applyPatch p c)"
    and "agents (snd (conv_update i p s)) = agents s"
    and "next_id (snd (conv_update i p s)) = next_id s"
  using assms find_map_upd[of conv_id "applyPatch p" i "conversations s"]
  by (simp_all add: conv_update_def conv_findById_def Let_def)

lemma conv_update_result:
  assumes "conv_findById s i = Some c"
  shows "conv_update i p s =
    (Some (applyPatch p c),
     s\<lparr>conversations := map (\<lambda>c. if conv_id c = i then applyPatch p c else c) (conversations s)\<rparr>)"
  using assms find_map_upd[of conv_id "applyPatch p" i "conversations s"]
  by (simp add: conv_update_def conv_findById_def Let_def)

lemma setParticipants_conversations [simp]:
  "conversations (setParticipants st ps s) = conversations s"
  by (induction ps arbitrary: s) (simp_all add: agent_update_def Let_def)

lemma setParticipants_next_id [simp]:
  "next_id (setParticipants st ps s) = next_id s"
  by (induction ps arbitrary: s) (simp_all add: agent_update_def Let_def)

lemma setParticipants_agents:
  "agents (setParticipants st ps s)
   = map (\<lambda>a. if agent_id a \<in> set ps then a\<lparr>agent_status := st\<rparr> else a) (agents s)"
proof (induction ps arbitrary: s)
  case Nil
  show ?case by (simp add: map_idI)
next
  case (Cons p ps)
  show ?case
    by (simp add: Cons.IH agent_update_def Let_def)
qed

lemma conv_findById_setParticipants [simp]:
  "conv_findById (setParticipants st ps s) i = conv_findById s i"
  by (simp add: conv_findById_def)

lemma agent_findById_setParticipants:
  "agent_findById (setParticipants st ps s) i
   = map_option (\<lambda>a. if agent_id a \<in> set ps then a\<lparr>agent_status := st\<rparr> else a) (agent_findById s i)"
  unfolding agent_findById_def setParticipants_agents
  by (rule find_map_key) simp

lemma checkParticipants_None:
  "checkParticipants s ps = None \<longleftrightarrow>
     (\<forall>p\<in>set ps. \<exists>a. agent_findById s p = Some a \<and> agent_status a = AgentInactive)"
  by (induction ps) (auto split: option.splits)

lemma checkParticipants_Some:
  "checkParticipants s ps = Some e \<Longrightarrow> e = AgentNotFound \<or> e = AgentNotAvailable"
  by (induction ps) (auto split: option.splits if_splits)

lemma checkParticipants_all_found:
  "\<forall>p\<in>set ps. agent_findById s p \<noteq> None \<Longrightarrow> checkParticipants s ps \<noteq> Some AgentNotFound"
  by (induction ps) (auto split: option.splits if_splits)

lemma checkParticipants_find:
  "checkParticipants s ps =
     (case find (unavailable s) ps of
        None \<Rightarrow> None
      | Some p \<Rightarrow> Some (if agent_findById s p = None then AgentNotFound else AgentNotAvailable))"
  by (induction ps) (auto simp: unavailable_def split: option.splits)

lemma createConversation_failure_unchanged:
  "fst (createConversation data now ok s) = Inl e \<Longrightarrow> e \<noteq> PromptFailed \<Longrightarrow>
   snd (createConversation data now ok s) = s"
  by (auto simp: createConversation_def viewConversationDetails_def
        split: option.splits prod.splits if_splits)

lemma createConversation_prompt:
  "createConversation data now ok s =
     (case createConversation data now True s of
        (Inr c, s') \<Rightarrow> if ok then (Inr c, s') else (Inl PromptFailed, s')
      | (Inl e, s') \<Rightarrow> (Inl e, s'))"
  by (auto simp: createConversation_def viewConversationDetails_def
        split: option.splits prod.splits)

lemma createConversation_snd:
  "snd (createConversation data now ok s) = snd (createConversation data now True s)"
  by (subst createConversation_prompt) (auto split: prod.splits sum.splits)

lemma createConversation_True_error:
  "fst (createConversation data now True s) = Inl e \<Longrightarrow> e \<noteq> PromptFailed"
  by (auto simp: createConversation_def viewConversationDetails_def
        split: option.splits prod.splits if_splits dest: checkParticipants_Some)

lemma createConversation_success:
  assumes "createConversation data now ok s = (Inr c, s')"
  shows "conv_status c = Active" and "conv_messages c = []"
    and "conv_participants c = dto_participantIds data"
    and "conv_name c = dto_name data"
    and "conv_id c = next_id s"
    and "conversations s' = conversations s @ [c]"
    and "next_id s' = Suc (next_id s)"
    and "agents s' = map (\<lambda>a. if agent_id a \<in> set (dto_participantIds data)
                               then a\<lparr>agent_status := AgentActive\<rparr> else a) (agents s)"
    and "checkParticipants s (dto_participantIds data) = None"
    and "2 \<le> length (dto_participantIds data)"
  using assms
  by (auto simp: createConversation_def viewConversationDetails_def conv_create_def Let_def
           setParticipants_agents
           split: option.splits if_splits)

lemma create_idle: "createConversation talkDTO 10 True idleStore = (Inr talk, busyStore)"
  by (simp add: createConversation_def viewConversationDetails_def isNameTaken_def
        example_defs repo_defs Let_def)

lemma release_result:
  assumes "conv_findById s i = Some c"
  shows "conv_update i p (setParticipants AgentInactive (conv_participants c) s)
         = (Some (applyPatch p c),
            (setParticipants AgentInactive (conv_participants c) s)
              \<lparr>conversations := map (\<lambda>c. if conv_id c = i then applyPatch p c else c) (conversations s)\<rparr>)"
  using conv_update_result[of "setParticipants AgentInactive (conv_participants c) s" i c p] assms
  by simp

lemma released_inactive:
  assumes "p \<in> set ps"
    and "agent_findById (setParticipants AgentInactive ps s\<lparr>conversations := cs\<rparr>) p = Some a"
  shows "agent_status a = AgentInactive"
proof -
  have "agent_findById (setParticipants AgentInactive ps s\<lparr>conversations := cs\<rparr>) p
        = agent_findById (setParticipants AgentInactive ps s) p"
    by (simp add: agent_findById_def)
  with assms(2) obtain a0 where a0: "agent_findById s p = Some a0"
    and a: "a = (if agent_id a0 \<in> set ps then a0\<lparr>agent_status := AgentInactive\<rparr> else a0)"
    by (auto simp: agent_findById_setParticipants)
  from a0 have "agent_id a0 = p" by (simp add: agent_findById_SomeD)
  with a assms(1) show ?thesis by simp
qed

lemma addMessage_failure_unchanged:
  "fst (addMessage data now s) = Inl e \<Longrightarrow> snd (addMessage data now s) = s"
  by (auto simp: addMessage_def split: option.splits prod.splits if_splits)

lemma conv_addMessage_found:
  assumes "conv_findById s i = Some c"
  shows "conv_findById (snd (conv_addMessage i m s)) i
         = Some (c\<lparr>conv_messages := conv_messages c @ [fst (conv_addMessage i m s)]\<rparr>)"
  using assms
    find_map_upd[of conv_id "\<lambda>c. c\<lparr>conv_messages := conv_messages c @ [m\<lparr>msg_id := next_id s\<rparr>]\<rparr>"
      i "conversations s"]
  by (simp add: conv_addMessage_def conv_findById_def Let_def)

lemmas example_defs2 = example_defs hello_def helloMsg_def chattingStore_def carolDTO_def

lemmas example_defs3 = example_defs2 carol_def dave_def meetMsg_def meet_def twoTalks_def

lemma hello_busy: "addMessage hello 15 busyStore = (Inr helloMsg, chattingStore)"
  by (simp add: addMessage_def example_defs2 repo_defs)


section \<open>The reservation invariant\<close>

lemma agentStatus_not_active [simp]: "(st \<noteq> AgentActive) = (st = AgentInactive)"
  by (cases st) auto

lemma invOn_mono: "invOn ags vs n \<Longrightarrow> n \<le> m \<Longrightarrow> invOn ags vs m"
  unfolding invOn_def by fastforce

lemma reservedIn_append:
  "reservedIn (vs @ [(n, True, ps)]) i \<longleftrightarrow> reservedIn vs i \<or> i \<in> set ps"
  by (auto simp: reservedIn_def)

lemma invOn_reserve:
  assumes inv: "invOn ags vs n"
    and free: "\<forall>p\<in>set ps. \<exists>a\<in>set ags. agent_id a = p \<and> agent_status a = AgentInactive"
  shows "invOn (map (\<lambda>a. if agent_id a \<in> set ps then a\<lparr>agent_status := AgentActive\<rparr> else a) ags)
           (vs @ [(n, True, ps)]) (Suc n)"
proof -
  have nores: "\<not> reservedIn vs p" if "p \<in> set ps" for p
    using inv free that unfolding invOn_def by fastforce
  have 1: "\<forall>a\<in>set (map (\<lambda>a. if agent_id a \<in> set ps then a\<lparr>agent_status := AgentActive\<rparr> else a) ags).
             (agent_status a = AgentActive) = reservedIn (vs @ [(n, True, ps)]) (agent_id a)"
    using inv unfolding invOn_def reservedIn_append by auto
  have 2: "\<forall>v\<in>set (vs @ [(n, True, ps)]). fst v < Suc n"
    using inv unfolding invOn_def by fastforce
  have 3: "distinct (map fst (vs @ [(n, True, ps)]))"
    using inv unfolding invOn_def by fastforce
  have 4: "\<forall>v\<in>set (vs @ [(n, True, ps)]). \<forall>w\<in>set (vs @ [(n, True, ps)]).
           fst (snd v) \<and> fst (snd w) \<and> set (snd (snd v)) \<inter> set (snd (snd w)) \<noteq> {}
           \<longrightarrow> fst v = fst w"
  proof (intro ballI impI)
    fix v w assume v: "v \<in> set (vs @ [(n, True, ps)])" and w: "w \<in> set (vs @ [(n, True, ps)])"
      and h: "fst (snd v) \<and> fst (snd w) \<and> set (snd (snd v)) \<inter> set (snd (snd w)) \<noteq> {}"
    from h obtain p where p: "p \<in> set (snd (snd v))" "p \<in> set (snd (snd w))" by auto
    consider "v \<in> set vs" "w \<in> set vs" | "v = (n, True, ps)" "w = (n, True, ps)"
      | "v \<in> set vs" "w = (n, True, ps)" | "v = (n, True, ps)" "w \<in> set vs"
      using v w by auto
    then show "fst v = fst w"
    proof cases
      case 1 then show ?thesis using inv h unfolding invOn_def by blast
    next
      case 2 then show ?thesis by simp
    next
      case 3
      then have "reservedIn vs p" "p \<in> set ps" using h p by (auto simp: reservedIn_def)
      with nores show ?thesis by blast
    next
      case 4
      then have "reservedIn vs p" "p \<in> set ps" using h p by (auto simp: reservedIn_def)
      with nores show ?thesis by blast
    qed
  qed
  show ?thesis unfolding invOn_def using 1 2 3 4 by blast
qed

lemma invOn_release:
  assumes inv: "invOn ags vs n" and mem: "(i, True, ps) \<in> set vs"
  shows "invOn (map (\<lambda>a. if agent_id a \<in> set ps then a\<lparr>agent_status := AgentInactive\<rparr> else a) ags)
           (map (\<lambda>v. if fst v = i then (fst v, False, snd (snd v)) else v) vs) n"
proof -
  let ?vs' = "map (\<lambda>v. if fst v = i then (fst v, False, snd (snd v)) else v) vs"
  have uniq: "v = (i, True, ps)" if "v \<in> set vs" "fst v = i" for v
    using distinct_key_eq[of fst vs v "(i, True, ps)"] inv mem that unfolding invOn_def by simp
  have res': "reservedIn ?vs' q \<longleftrightarrow> (\<exists>v\<in>set vs. fst v \<noteq> i \<and> fst (snd v) \<and> q \<in> set (snd (snd v)))" for q
    by (auto simp: reservedIn_def)
  have other: "fst v = i" if "v \<in> set vs" "fst (snd v)" "q \<in> set (snd (snd v))" "q \<in> set ps" for v q
  proof -
    have "set (snd (snd v)) \<inter> set (snd (snd (i, True, ps))) \<noteq> {}" using that by auto
    then show ?thesis using inv mem that(1,2) unfolding invOn_def by fastforce
  qed
  have 1: "\<forall>a\<in>set (map (\<lambda>a. if agent_id a \<in> set ps then a\<lparr>agent_status := AgentInactive\<rparr> else a) ags).
             (agent_status a = AgentActive) = reservedIn ?vs' (agent_id a)"
  proof
    fix a' assume "a' \<in> set (map (\<lambda>a. if agent_id a \<in> set ps then a\<lparr>agent_status := AgentInactive\<rparr> else a) ags)"
    then obtain a where a: "a \<in> set ags"
      and a': "a' = (if agent_id a \<in> set ps then a\<lparr>agent_status := AgentInactive\<rparr> else a)" by auto
    have ia: "(agent_status a = AgentActive) = reservedIn vs (agent_id a)"
      using inv a unfolding invOn_def by blast
    show "(agent_status a' = AgentActive) = reservedIn ?vs' (agent_id a')"
    proof (cases "agent_id a \<in> set ps")
      case True
      then have "\<not> reservedIn ?vs' (agent_id a)" unfolding res' using other by blast
      with True a' show ?thesis by simp
    next
      case False
      have "reservedIn ?vs' (agent_id a) = reservedIn vs (agent_id a)"
      proof
        assume "reservedIn ?vs' (agent_id a)"
        then have "\<exists>v\<in>set vs. fst v \<noteq> i \<and> fst (snd v) \<and> agent_id a \<in> set (snd (snd v))"
          using res'[of "agent_id a"] by simp
        then show "reservedIn vs (agent_id a)" unfolding reservedIn_def by blast
      next
        assume "reservedIn vs (agent_id a)"
        then obtain v where v: "v \<in> set vs" "fst (snd v)" "agent_id a \<in> set (snd (snd v))"
          unfolding reservedIn_def by blast
        have "fst v \<noteq> i"
        proof
          assume "fst v = i"
          then have "v = (i, True, ps)" using uniq v(1) by blast
          with v(3) False show False by simp
        qed
        with v have "\<exists>v\<in>set vs. fst v \<noteq> i \<and> fst (snd v) \<and> agent_id a \<in> set (snd (snd v))"
          by blast
        then show "reservedIn ?vs' (agent_id a)" using res'[of "agent_id a"] by simp
      qed
      with False a' ia show ?thesis by simp
    qed
  qed
  have 2: "\<forall>v\<in>set ?vs'. fst v < n" using inv unfolding invOn_def by auto
  have mf: "map fst ?vs' = map fst vs" by (induction vs) auto
  have 3: "distinct (map fst ?vs')" unfolding mf using inv unfolding invOn_def by blast
  have 4: "\<forall>v\<in>set ?vs'. \<forall>w\<in>set ?vs'.
           fst (snd v) \<and> fst (snd w) \<and> set (snd (snd v)) \<inter> set (snd (snd w)) \<noteq> {}
           \<longrightarrow> fst v = fst w"
  proof (intro ballI impI)
    fix v w assume v: "v \<in> set ?vs'" and w: "w \<in> set ?vs'"
      and h: "fst (snd v) \<and> fst (snd w) \<and> set (snd (snd v)) \<inter> set (snd (snd w)) \<noteq> {}"
    have "v \<in> set vs" using v h by (auto split: if_splits)
    moreover have "w \<in> set vs" using w h by (auto split: if_splits)
    ultimately show "fst v = fst w" using inv h unfolding invOn_def by blast
  qed
  show ?thesis unfolding invOn_def using 1 2 3 4 by blast
qed

lemma storeUpdate_eq:
  "storeUpdate i p s =
     (Inr (conv_findById (s\<lparr>conversations := map (\<lambda>c. if conv_id c = i then applyPatch p c else c) (conversations s)\<rparr>) i),
      s\<lparr>conversations := map (\<lambda>c. if conv_id c = i then applyPatch p c else c) (conversations s)\<rparr>)"
  by (simp add: storeUpdate_def conv_update_def Let_def)

lemma nullingUpdate_Nil [simp]: "nullingUpdate [] = storeUpdate"
  by (intro ext) (simp add: nullingUpdate_def)

lemma pauseEach_nulling_skip:
  "conv_id c \<in> set F \<Longrightarrow> pauseEach (nullingUpdate F) (c # cs) s = pauseEach (nullingUpdate F) cs s"
  by (simp add: nullingUpdate_def)

lemma pauseEach_nulling_step:
  "conv_id c \<notin> set F \<Longrightarrow>
   pauseEach (nullingUpdate F) (c # cs) s
   = pauseEach (nullingUpdate F) cs
       (s\<lparr>conversations := map (\<lambda>x. if conv_id x = conv_id c then x\<lparr>conv_status := Paused\<rparr> else x)
                              (conversations s)\<rparr>)"
  by (simp add: nullingUpdate_def storeUpdate_eq applyPatch_status_only cong: if_cong)

lemma pauseEach_nulling:
  "pauseEach (nullingUpdate F) cs s =
     (Inr (), s\<lparr>conversations :=
        map (\<lambda>x. if conv_id x \<in> conv_id ` {c \<in> set cs. conv_id c \<notin> set F}
                  then x\<lparr>conv_status := Paused\<rparr> else x) (conversations s)\<rparr>)"
proof (induction cs arbitrary: s)
  case Nil
  show ?case by (simp add: map_idI)
next
  case (Cons c cs)
  show ?case
  proof (cases "conv_id c \<in> set F")
    case True
    have "conv_id ` {x \<in> set (c # cs). conv_id x \<notin> set F} = conv_id ` {x \<in> set cs. conv_id x \<notin> set F}"
      using True by auto
    then show ?thesis
      unfolding pauseEach_nulling_skip[OF True] Cons.IH by simp
  next
    case False
    have img: "conv_id ` {x \<in> set (c # cs). conv_id x \<notin> set F}
               = insert (conv_id c) (conv_id ` {x \<in> set cs. conv_id x \<notin> set F})"
      using False by auto
    show ?thesis
      unfolding pauseEach_nulling_step[OF False] Cons.IH img
      by (auto simp: o_def intro!: map_cong)
  qed
qed

lemma pauseEach_rejecting_stop:
  "conv_id c \<in> set F \<Longrightarrow> pauseEach (rejectingUpdate F) (c # cs) s = (Inl StoreError, s)"
  by (simp add: rejectingUpdate_def)

lemma pauseEach_rejecting_step:
  "conv_id c \<notin> set F \<Longrightarrow>
   pauseEach (rejectingUpdate F) (c # cs) s
   = pauseEach (rejectingUpdate F) cs (snd (pauseEach storeUpdate [c] s))"
  by (simp add: rejectingUpdate_def storeUpdate_eq)

lemma pauseEach_storeUpdate_Cons:
  "pauseEach storeUpdate (c # cs) s = pauseEach storeUpdate cs (snd (pauseEach storeUpdate [c] s))"
  by (simp add: storeUpdate_eq)

lemma pauseEach_rejecting:
  "pauseEach (rejectingUpdate F) cs s =
     (if \<exists>c\<in>set cs. conv_id c \<in> set F then Inl StoreError else Inr (),
      snd (pauseEach storeUpdate (takeWhile (\<lambda>c. conv_id c \<notin> set F) cs) s))"
proof (induction cs arbitrary: s)
  case Nil
  show ?case by simp
next
  case (Cons c cs)
  show ?case
  proof (cases "conv_id c \<in> set F")
    case True
    then show ?thesis unfolding pauseEach_rejecting_stop[OF True] by simp
  next
    case False
    have tk: "takeWhile (\<lambda>c. conv_id c \<notin> set F) (c # cs) = c # takeWhile (\<lambda>c. conv_id c \<notin> set F) cs"
      using False by simp
    show ?thesis
      unfolding pauseEach_rejecting_step[OF False] Cons.IH tk
        pauseEach_storeUpdate_Cons[of c "takeWhile (\<lambda>c. conv_id c \<notin> set F) cs"]
      using False by simp
  qed
qed

lemma pausedWhere_cong:
  "(\<And>c. c \<in> set (conversations s) \<Longrightarrow> Q c = R c) \<Longrightarrow> pausedWhere Q s = pausedWhere R s"
  by (simp add: pausedWhere_def cong: map_cong)

lemma pauseAll_nulling:
  assumes d: "distinct (map conv_id (conversations s))"
  shows "pauseAllConversationsWith (nullingUpdate F) s
         = (Inr (), pausedWhere (\<lambda>c. conv_status c = Active \<and> conv_id c \<notin> set F) s)"
proof -
  have "(conv_id x \<in> conv_id ` {c \<in> set (filter (\<lambda>c. conv_status c = Active) (conversations s)). conv_id c \<notin> set F})
        = (conv_status x = Active \<and> conv_id x \<notin> set F)" if "x \<in> set (conversations s)" for x
    using distinct_key_eq[OF d that] that by (auto simp: image_iff)
  then show ?thesis
    unfolding pauseAllConversationsWith_def conv_findAll_def pauseEach_nulling pausedWhere_def
    by (simp cong: map_cong)
qed

lemma pauseAll_rejecting:
  assumes d: "distinct (map conv_id (conversations s))"
  shows "pauseAllConversationsWith (rejectingUpdate F) s
         = (if \<exists>c\<in>set (conversations s). conv_status c = Active \<and> conv_id c \<in> set F
            then Inl StoreError else Inr (),
            pausedWhere (\<lambda>c. c \<in> set (takeWhile (\<lambda>c. conv_id c \<notin> set F)
                                  (filter (\<lambda>c. conv_status c = Active) (conversations s)))) s)"
proof -
  let ?tk = "takeWhile (\<lambda>c. conv_id c \<notin> set F) (filter (\<lambda>c. conv_status c = Active) (conversations s))"
  have sub: "set ?tk \<subseteq> set (conversations s)"
    using set_takeWhileD by fastforce
  have "(conv_id x \<in> conv_id ` {c \<in> set ?tk. conv_id c \<notin> set []}) = (x \<in> set ?tk)"
    if "x \<in> set (conversations s)" for x
    using distinct_key_eq[OF d that] that sub by (auto simp: image_iff)
  then show ?thesis
    unfolding pauseAllConversationsWith_def conv_findAll_def pauseEach_rejecting pausedWhere_def
      nullingUpdate_Nil[symmetric] pauseEach_nulling
    by (auto cong: map_cong)
qed

lemma reservationInv_distinct:
  "reservationInv s \<Longrightarrow> distinct (map conv_id (conversations s))"
proof -
  have "map fst (map cview (conversations s)) = map conv_id (conversations s)"
    by (simp add: cview_def o_def)
  then show "reservationInv s \<Longrightarrow> distinct (map conv_id (conversations s))"
    unfolding reservationInv_def invOn_def by metis
qed

lemma reservationInv_same_views:
  assumes "reservationInv s" and "agents s' = agents s"
    and "map cview (conversations s') = map cview (conversations s)"
    and "next_id s \<le> next_id s'"
  shows "reservationInv s'"
  using assms invOn_mono unfolding reservationInv_def by metis

lemma inv_create: "reservationInv s \<Longrightarrow> reservationInv (snd (createConversation data now ok s))"
  unfolding createConversation_snd[of data now ok s]
proof (cases "fst (createConversation data now True s)")
  case (Inl e)
  assume "reservationInv s"
  with createConversation_failure_unchanged[OF Inl createConversation_True_error[OF Inl]]
  show "reservationInv (snd (createConversation data now True s))" by simp
next
  case (Inr c)
  assume inv: "reservationInv s"
  obtain s' where ok: "createConversation data now True s = (Inr c, s')"
    using Inr by (cases "createConversation data now True s") simp
  note f = createConversation_success[OF ok]
  have free: "\<forall>p\<in>set (dto_participantIds data).
      \<exists>a\<in>set (agents s). agent_id a = p \<and> agent_status a = AgentInactive"
    using f(9) unfolding checkParticipants_None by (blast dest: agent_findById_SomeD)
  have v: "map cview (conversations s') = map cview (conversations s) @ [(next_id s, True, dto_participantIds data)]"
    using f by (simp add: cview_def nonTerminal_def)
  show "reservationInv (snd (createConversation data now True s))"
    using invOn_reserve[OF inv[unfolded reservationInv_def] free] ok
    by (simp add: reservationInv_def v f(7,8))
qed

lemma inv_release:
  assumes inv: "reservationInv s" and c: "conv_findById s i = Some c" and nt: "nonTerminal c"
    and p: "patch_status p = Completed \<or> patch_status p = Terminated"
  shows "reservationInv ((setParticipants AgentInactive (conv_participants c) s)
              \<lparr>conversations := map (\<lambda>c. if conv_id c = i then applyPatch p c else c) (conversations s)\<rparr>)"
proof -
  have mem: "(i, True, conv_participants c) \<in> set (map cview (conversations s))"
    using conv_findById_SomeD[OF c] nt by (force simp: cview_def)
  have v: "map cview (map (\<lambda>c. if conv_id c = i then applyPatch p c else c) (conversations s))
         = map (\<lambda>v. if fst v = i then (fst v, False, snd (snd v)) else v) (map cview (conversations s))"
    using p by (auto simp: cview_def nonTerminal_def)
  let ?s' = "(setParticipants AgentInactive (conv_participants c) s)
              \<lparr>conversations := map (\<lambda>c. if conv_id c = i then applyPatch p c else c) (conversations s)\<rparr>"
  have ag: "agents ?s' = map (\<lambda>a. if agent_id a \<in> set (conv_participants c)
                                  then a\<lparr>agent_status := AgentInactive\<rparr> else a) (agents s)"
    by (simp add: setParticipants_agents)
  have cs: "conversations ?s' = map (\<lambda>c. if conv_id c = i then applyPatch p c else c) (conversations s)"
    by simp
  have nx: "next_id ?s' = next_id s" by simp
  show ?thesis
    unfolding reservationInv_def ag cs nx v
    by (rule invOn_release[OF inv[unfolded reservationInv_def] mem])
qed

lemma inv_flip:
  assumes inv: "reservationInv s" and c: "conv_findById s i = Some c" and nt: "nonTerminal c"
    and p: "patch_status p = Active \<or> patch_status p = Paused"
  shows "reservationInv (snd (conv_update i p s))"
proof -
  have only: "x = c" if "x \<in> set (conversations s)" and "conv_id x = i" for x
    using distinct_key_eq[OF reservationInv_distinct[OF inv] that(1), of c]
      conv_findById_SomeD[OF c] that(2) by simp
  have same: "cview (applyPatch p c) = cview c"
    using nt p by (auto simp: cview_def nonTerminal_def)
  have "map cview (map (\<lambda>x. if conv_id x = i then applyPatch p x else x) (conversations s))
        = map cview (conversations s)"
    unfolding map_map by (rule map_cong[OF refl]) (auto simp: same dest: only)
  then show ?thesis
    unfolding conv_update_result[OF c]
    by (intro reservationInv_same_views[OF inv]) simp_all
qed

lemma inv_complete: "reservationInv s \<Longrightarrow> reservationInv (snd (completeConversation i g now s))"
  using inv_release[of s i _ "\<lparr>patch_status = Completed, patch_endedAt = Some now, patch_goalAchieved = Some g\<rparr>"]
  by (auto simp: completeConversation_def release_result nonTerminal_def split: option.splits)

lemma inv_terminate: "reservationInv s \<Longrightarrow> reservationInv (snd (terminateConversation i now s))"
  using inv_release[of s i _ "\<lparr>patch_status = Terminated, patch_endedAt = Some now, patch_goalAchieved = Some False\<rparr>"]
  by (auto simp: terminateConversation_def release_result nonTerminal_def split: option.splits)

lemma inv_pause: "reservationInv s \<Longrightarrow> reservationInv (snd (pauseConversation i s))"
  using inv_flip[of s i _ "\<lparr>patch_status = Paused, patch_endedAt = None, patch_goalAchieved = None\<rparr>"]
  by (auto simp: pauseConversation_def nonTerminal_def split: option.splits prod.splits)

lemma inv_unpause: "reservationInv s \<Longrightarrow> reservationInv (snd (unpauseConversation i s))"
  using inv_flip[of s i _ "\<lparr>patch_status = Active, patch_endedAt = None, patch_goalAchieved = None\<rparr>"]
  by (auto simp: unpauseConversation_def nonTerminal_def split: option.splits prod.splits)

lemma inv_addMessage: "reservationInv s \<Longrightarrow> reservationInv (snd (addMessage data now s))"
proof (cases "fst (addMessage data now s)")
  case (Inl e)
  assume "reservationInv s"
  with addMessage_failure_unchanged[OF Inl] show ?thesis by simp
next
  case (Inr m)
  assume inv: "reservationInv s"
  have cv: "cview (c\<lparr>conv_messages := ms\<rparr>) = cview c" for c ms
    by (simp add: cview_def nonTerminal_def)
  from Inr show ?thesis
    by (auto simp: addMessage_def conv_addMessage_def Let_def cv o_def
          split: option.splits if_splits
          intro!: reservationInv_same_views[OF inv])
qed

lemma inv_pauseAll: "reservationInv s \<Longrightarrow> reservationInv (snd (pauseAllConversations s))"
proof -
  assume inv: "reservationInv s"
  have same: "cview (c\<lparr>conv_status := Paused\<rparr>) = cview c" if "conv_status c = Active" for c
    using that by (simp add: cview_def nonTerminal_def)
  have v: "map cview (conversations (pausedWhere (\<lambda>c. conv_status c = Active \<and> conv_id c \<notin> set []) s))
        = map cview (conversations s)"
    unfolding pausedWhere_def by (simp add: o_def same cong: map_cong if_cong)
  have r: "snd (pauseAllConversations s) = pausedWhere (\<lambda>c. conv_status c = Active \<and> conv_id c \<notin> set []) s"
    unfolding pauseAllConversations_def nullingUpdate_Nil[symmetric]
      pauseAll_nulling[OF reservationInv_distinct[OF inv]] by simp
  show ?thesis
    unfolding r by (rule reservationInv_same_views[OF inv _ v]) (simp_all add: pausedWhere_def)
qed

lemma inv_perform: "reservationInv s \<Longrightarrow> reservationInv (perform call s)"
  by (cases call)
     (simp_all add: inv_create inv_addMessage inv_complete inv_pause inv_pauseAll inv_unpause inv_terminate)

lemma inv_performAll: "reservationInv s \<Longrightarrow> reservationInv (performAll calls s)"
  unfolding performAll_def by (induction calls arbitrary: s) (simp_all add: inv_perform)

lemma inv_fresh: "freshRegistry s \<Longrightarrow> reservationInv s"
  by (auto simp: freshRegistry_def reservationInv_def invOn_def reservedIn_def)

lemma reservedIn_views:
  "reservedIn (map cview cs) i
   \<longleftrightarrow> (\<exists>c\<in>set cs. (conv_status c = Active \<or> conv_status c = Paused) \<and> i \<in> set (conv_participants c))"
  by (auto simp: reservedIn_def cview_def nonTerminal_def)



section \<open>Facts about the generation driver\<close>

lemma chatCompletion_keeps:
  "w_driver (snd (chatCompletion w)) = w_driver w" "w_store (snd (chatCompletion w)) = w_store w"
  by (simp_all add: chatCompletion_def split: list.splits)

lemma checkGoalAchievement_keeps:
  "w_driver (snd (checkGoalAchievement i w)) = w_driver w"
  "w_store (snd (checkGoalAchievement i w)) = w_store w"
  using chatCompletion_keeps[of w]
  by (auto simp: checkGoalAchievement_def split: option.splits sum.splits prod.splits llmOutcome.splits)

lemma generate_driver: "w_driver (snd (generate now conversation c w)) = w_driver w"
proof -
  obtain r w1 where ch: "chatCompletion w = (r, w1)" by force
  have k: "w_driver w1 = w_driver w" using chatCompletion_keeps(1)[of w] ch by simp
  have cg: "w_driver w2 = w_driver w1" if "checkGoalAchievement i (w1\<lparr>w_store := st\<rparr>) = (r2, w2)"
    for i st r2 w2
    using checkGoalAchievement_keeps(1)[of i "w1\<lparr>w_store := st\<rparr>"] that by simp
  show ?thesis
    unfolding generate_def using ch k
    by (auto split: sum.splits prod.splits llmOutcome.splits option.splits if_splits dest: cg)
qed

lemma generate_failure_store:
  assumes "fst (generate now conversation c w) = Inl e"
    and "\<not> (messageCheckThreshold (w_driver w) \<noteq> 0
            \<and> ctx_messageCount c mod messageCheckThreshold (w_driver w) = 0)"
  shows "w_store (snd (generate now conversation c w)) = w_store w"
proof -
  obtain r w1 where ch: "chatCompletion w = (r, w1)" by force
  have k: "w_driver w1 = w_driver w" "w_store w1 = w_store w"
    using chatCompletion_keeps[of w] ch by simp_all
  have am: "st = s0" if "addMessage d now s0 = (Inl e', st)" for d s0 e' st
    using addMessage_failure_unchanged[of d now s0 e'] that by simp
  show ?thesis
    using assms ch k unfolding generate_def
    by (auto split: sum.splits prod.splits llmOutcome.splits option.splits if_splits dest: am)
qed

lemma generate_rejected_store:
  assumes "w_llm w = [] \<or> (\<exists>rs. w_llm w = Rejects # rs) \<or> (\<exists>rs. w_llm w = Replies None # rs)
         \<or> (\<exists>t rs. w_llm w = Replies (Some t) # rs \<and> (t = [] \<or> isl (parseResponse t (ctx_participants c))))"
  shows "w_store (snd (generate now conversation c w)) = w_store w
       \<and> isl (fst (generate now conversation c w))"
  using assms unfolding generate_def chatCompletion_def
  by (auto split: sum.splits prod.splits llmOutcome.splits option.splits if_splits list.splits)

lemma touchContext_present:
  assumes "map_of (conversationContexts (w_driver w)) (conv_id conversation) = Some c"
  shows "touchContext conversation w
         = (Inr (c\<lparr>ctx_messageCount := ctx_messageCount c + 1\<rparr>),
            w\<lparr>w_driver := (w_driver w)
                 \<lparr>conversationContexts :=
                    AList.update (conv_id conversation) (c\<lparr>ctx_messageCount := ctx_messageCount c + 1\<rparr>)
                      (conversationContexts (w_driver w))\<rparr>\<rparr>)"
  using assms by (simp add: touchContext_def Let_def)

lemma touchContext_keeps:
  "w_store (snd (touchContext conversation w)) = w_store w"
  "w_llm (snd (touchContext conversation w)) = w_llm w"
  "messageCheckThreshold (w_driver (snd (touchContext conversation w))) = messageCheckThreshold (w_driver w)"
  "consecutiveErrors (w_driver (snd (touchContext conversation w))) = consecutiveErrors (w_driver w)"
  "maxConsecutiveErrors (w_driver (snd (touchContext conversation w))) = maxConsecutiveErrors (w_driver w)"
  "isEnabled (w_driver (snd (touchContext conversation w))) = isEnabled (w_driver w)"
  "disabledReason (w_driver (snd (touchContext conversation w))) = disabledReason (w_driver w)"
  by (auto simp: touchContext_def initializeConversation_def Let_def
        split: option.splits sum.splits prod.splits)

lemma touchContext_count:
  assumes "touchContext conversation w = (Inr c, w1)"
  shows "ctx_messageCount c
         = (case map_of (conversationContexts (w_driver w)) (conv_id conversation) of
              None \<Rightarrow> 1 | Some c0 \<Rightarrow> ctx_messageCount c0 + 1)"
  using assms
  by (auto simp: touchContext_def initializeConversation_def Let_def update_conv'
        split: option.splits sum.splits prod.splits)

lemma handleApiError_fields:
  "conversationContexts (handleApiError d) = conversationContexts d"
  "consecutiveErrors (handleApiError d) = consecutiveErrors d + 1"
  "maxConsecutiveErrors (handleApiError d) = maxConsecutiveErrors d"
  "messageCheckThreshold (handleApiError d) = messageCheckThreshold d"
  "isEnabled d \<Longrightarrow> isEnabled (handleApiError d) = (consecutiveErrors d + 1 < maxConsecutiveErrors d)"
  "isEnabled d \<Longrightarrow> disabledReason (handleApiError d)
     = (if consecutiveErrors d + 1 < maxConsecutiveErrors d then disabledReason d
        else Some ''Too many consecutive API errors. Service temporarily disabled.'')"
  by (auto simp: handleApiError_def disableService_def Let_def)

lemma processMessage_enabled:
  assumes "isEnabled (w_driver w)" and "hasClient (w_driver w)"
  shows "processMessage now message conversation w
         = (case processMessageTry now conversation w of
              (Inl e, w') \<Rightarrow> w'\<lparr>w_driver := handleApiError (w_driver w')\<rparr>
            | (Inr u, w') \<Rightarrow> w')"
  using assms by (simp add: processMessage_def)

lemma processMessageTry_cases:
  obtains (noContext) e w1 where "touchContext conversation w = (Inl e, w1)"
      and "processMessageTry now conversation w = (Inl e, w1)"
  | (failed) c w1 e w2 where "touchContext conversation w = (Inr c, w1)"
      and "generate now conversation c w1 = (Inl e, w2)"
      and "processMessageTry now conversation w = (Inl e, w2)"
  | (succeeded) c w1 w2 where "touchContext conversation w = (Inr c, w1)"
      and "generate now conversation c w1 = (Inr (), w2)"
      and "processMessageTry now conversation w = (Inr (), w2\<lparr>w_driver := resetErrorCount (w_driver w2)\<rparr>)"
proof -
  obtain r w1 where t: "touchContext conversation w = (r, w1)" by force
  show thesis
  proof (cases r)
    case (Inl e)
    then show ?thesis using t noContext by (simp add: processMessageTry_def)
  next
    case (Inr c)
    obtain r2 w2 where g: "generate now conversation c w1 = (r2, w2)" by force
    show ?thesis
    proof (cases r2)
      case (Inl e)
      then show ?thesis using t Inr g failed by (simp add: processMessageTry_def)
    next
      case Inr2: (Inr u)
      then show ?thesis using t Inr g succeeded by (simp add: processMessageTry_def)
    qed
  qed
qed

lemmas driver_defs = readyDriver_def newOpenAIService_def meetCtx_def chatWorld_def daveMsg_def
  disableService_def handleApiError_def resetErrorCount_def chatCompletion_def
  initializeConversation_def toLowerChar_def toLowerCase_def isSpace_def trim_def lastN_def
  parseResponse_def sendersKnown_def checkGoalAchievement_def touchContext_def generate_def
  processMessageTry_def processMessage_def getConversationMessages_def addMessage_def
  completeConversation_def

lemmas scheduler_defs = busyScheduler_def newScheduler_def newBackgroundService_def start_def
  stop_def processConversations_def tick_def processActiveConversations_def
  openingMessage_def agentTypeName_def

lemma try_nonsense:
  "processMessageTry 100 meet
     (chatWorld (readyDriver\<lparr>conversationContexts := [(7, meetCtx)], consecutiveErrors := k\<rparr>)
        [Replies (Some ''nonsense'')])
   = (Inl MalformedResponse,
      chatWorld (readyDriver\<lparr>conversationContexts := [(7, meetCtx\<lparr>ctx_messageCount := 2\<rparr>)],
                              consecutiveErrors := k\<rparr>) [])"
  by (simp add: driver_defs example_defs3 repo_defs)

lemma try_dave:
  "processMessageTry 100 meet
     (chatWorld (readyDriver\<lparr>conversationContexts := [(7, meetCtx)], consecutiveErrors := 3\<rparr>)
        [Replies (Some ''Dave: fine'')])
   = (Inr (),
      \<lparr>w_store = twoTalks\<lparr>conversations := [talk, meet\<lparr>conv_messages := [meetMsg, daveMsg]\<rparr>],
                           next_id := 10\<rparr>,
       w_driver = readyDriver\<lparr>conversationContexts := [(7, meetCtx\<lparr>ctx_messageCount := 2\<rparr>)],
                              consecutiveErrors := 0\<rparr>,
       w_llm = []\<rparr>)"
  by (simp add: driver_defs example_defs3 repo_defs)

lemma ready_enabled:
  "isEnabled (readyDriver\<lparr>conversationContexts := cs, consecutiveErrors := k\<rparr>)"
  "hasClient (readyDriver\<lparr>conversationContexts := cs, consecutiveErrors := k\<rparr>)"
  "maxConsecutiveErrors (readyDriver\<lparr>conversationContexts := cs, consecutiveErrors := k\<rparr>) = 10"
  "messageCheckThreshold (readyDriver\<lparr>conversationContexts := cs, consecutiveErrors := k\<rparr>) = 50"
  "disabledReason (readyDriver\<lparr>conversationContexts := cs, consecutiveErrors := k\<rparr>) = None"
  by (simp_all add: readyDriver_def newOpenAIService_def)

lemma tick_while_processing: "isProcessing b \<Longrightarrow> tick now (b, w) = (b, w)"
  by (simp add: tick_def)

lemma stop_clears: "running b \<Longrightarrow> lastMessageTime (stop b) = [] \<and> \<not> running (stop b)"
  by (simp add: stop_def)

section \<open>Claims about the conversation lifecycle\<close>

text \<open>
  C2, as the code has it. A \<^verbatim>\<open>createConversation\<close> call that lists an agent whose
  status is not inactive always fails in validation, and a call that fails in validation
  (with any error but that of the closing prompt) leaves the store as it was: no agent is
  reserved and no conversation is written. The checks are made in this order: the name
  (\<open>DuplicateName\<close>), the number of participants (\<open>InvalidParticipantCount\<close>), then the
  participants in list order. So the error is \<open>AgentNotAvailable\<close> exactly when the name is
  free, there are 2 to 10 participants, and the first listed participant that is missing or
  not inactive is an agent (one that is not inactive); it is \<open>AgentNotFound\<close> exactly when
  that first participant resolves to no agent. On success the new conversation is appended
  to the store with status active, no messages and the listed participants, and every
  participant is found with status active. The call can also fail after these writes, when
  the prompt that closes the display of the new conversation rejects: then the store is the
  one a successful call leaves.
\<close>

theorem C2_createConversation:
  "(\<forall>e. fst (createConversation data now ok s) = Inl e \<and> e \<noteq> PromptFailed
        \<longrightarrow> snd (createConversation data now ok s) = s)
 \<and> ((\<exists>p\<in>set (dto_participantIds data). \<exists>a. agent_findById s p = Some a \<and> agent_status a \<noteq> AgentInactive)
      \<longrightarrow> (\<exists>e. e \<noteq> PromptFailed \<and> createConversation data now ok s = (Inl e, s)))
 \<and> (fst (createConversation data now ok s) = Inl DuplicateName) = isNameTaken s (dto_name data)
 \<and> (fst (createConversation data now ok s) = Inl InvalidParticipantCount)
     = (\<not> isNameTaken s (dto_name data)
        \<and> (length (dto_participantIds data) < 2 \<or> length (dto_participantIds data) > 10))
 \<and> (fst (createConversation data now ok s) = Inl AgentNotAvailable)
     = (\<not> isNameTaken s (dto_name data)
        \<and> 2 \<le> length (dto_participantIds data) \<and> length (dto_participantIds data) \<le> 10
        \<and> (\<exists>p. find (unavailable s) (dto_participantIds data) = Some p \<and> agent_findById s p \<noteq> None))
 \<and> (fst (createConversation data now ok s) = Inl AgentNotFound)
     = (\<not> isNameTaken s (dto_name data)
        \<and> 2 \<le> length (dto_participantIds data) \<and> length (dto_participantIds data) \<le> 10
        \<and> (\<exists>p. find (unavailable s) (dto_participantIds data) = Some p \<and> agent_findById s p = None))
 \<and> (\<forall>c s'. createConversation data now ok s = (Inr c, s') \<longrightarrow>
        conv_status c = Active \<and> conv_messages c = []
      \<and> conv_participants c = dto_participantIds data
      \<and> conversations s' = conversations s @ [c]
      \<and> (\<forall>p\<in>set (dto_participantIds data).
            \<exists>a. agent_findById s' p = Some a \<and> agent_status a = AgentActive))
 \<and> (\<forall>s'. createConversation data now ok s = (Inl PromptFailed, s') \<longrightarrow>
        \<not> ok \<and> (\<exists>c. createConversation data now True s = (Inr c, s')))"
proof -
  let ?ps = "dto_participantIds data"
  have A: "\<forall>e. fst (createConversation data now ok s) = Inl e \<and> e \<noteq> PromptFailed
        \<longrightarrow> snd (createConversation data now ok s) = s"
    by (auto intro: createConversation_failure_unchanged)
  have B: "(\<exists>p\<in>set ?ps. \<exists>a. agent_findById s p = Some a \<and> agent_status a \<noteq> AgentInactive)
      \<longrightarrow> (\<exists>e. e \<noteq> PromptFailed \<and> createConversation data now ok s = (Inl e, s))"
  proof
    assume "\<exists>p\<in>set ?ps. \<exists>a. agent_findById s p = Some a \<and> agent_status a \<noteq> AgentInactive"
    then have "checkParticipants s ?ps \<noteq> None"
      unfolding checkParticipants_None by fastforce
    then obtain e where e: "checkParticipants s ?ps = Some e" by auto
    then have "e \<noteq> PromptFailed" using checkParticipants_Some by fastforce
    with e show "\<exists>e. e \<noteq> PromptFailed \<and> createConversation data now ok s = (Inl e, s)"
      by (auto simp: createConversation_def)
  qed
  have fnd: "(\<exists>p. find (unavailable s) ?ps = Some p \<and> agent_findById s p \<noteq> None)
             = (checkParticipants s ?ps = Some AgentNotAvailable)"
    "(\<exists>p. find (unavailable s) ?ps = Some p \<and> agent_findById s p = None)
             = (checkParticipants s ?ps = Some AgentNotFound)"
    unfolding checkParticipants_find by (auto split: option.splits)
  have cp: "checkParticipants s ?ps = Some e \<Longrightarrow> e = AgentNotFound \<or> e = AgentNotAvailable" for e
    by (rule checkParticipants_Some)
  have E1: "(fst (createConversation data now ok s) = Inl DuplicateName) = isNameTaken s (dto_name data)"
    by (auto simp: createConversation_def viewConversationDetails_def
          split: option.splits prod.splits dest: cp)
  have E2: "(fst (createConversation data now ok s) = Inl InvalidParticipantCount)
     = (\<not> isNameTaken s (dto_name data) \<and> (length ?ps < 2 \<or> length ?ps > 10))"
    by (auto simp: createConversation_def viewConversationDetails_def
          split: option.splits prod.splits dest: cp)
  have E3: "(fst (createConversation data now ok s) = Inl AgentNotAvailable)
     = (\<not> isNameTaken s (dto_name data) \<and> 2 \<le> length ?ps \<and> length ?ps \<le> 10
        \<and> (\<exists>p. find (unavailable s) ?ps = Some p \<and> agent_findById s p \<noteq> None))"
    unfolding fnd
    by (auto simp: createConversation_def viewConversationDetails_def
          split: option.splits prod.splits)
  have E4: "(fst (createConversation data now ok s) = Inl AgentNotFound)
     = (\<not> isNameTaken s (dto_name data) \<and> 2 \<le> length ?ps \<and> length ?ps \<le> 10
        \<and> (\<exists>p. find (unavailable s) ?ps = Some p \<and> agent_findById s p = None))"
    unfolding fnd
    by (auto simp: createConversation_def viewConversationDetails_def
          split: option.splits prod.splits)
  have D: "\<forall>c s'. createConversation data now ok s = (Inr c, s') \<longrightarrow>
        conv_status c = Active \<and> conv_messages c = []
      \<and> conv_participants c = ?ps
      \<and> conversations s' = conversations s @ [c]
      \<and> (\<forall>p\<in>set ?ps. \<exists>a. agent_findById s' p = Some a \<and> agent_status a = AgentActive)"
  proof (intro allI impI)
    fix c s' assume ok: "createConversation data now ok s = (Inr c, s')"
    note facts = createConversation_success[OF ok]
    have "\<forall>p\<in>set ?ps. \<exists>a. agent_findById s' p = Some a \<and> agent_status a = AgentActive"
    proof
      fix p assume p: "p \<in> set ?ps"
      from facts(9) p obtain a where a: "agent_findById s p = Some a"
        unfolding checkParticipants_None by blast
      then have ia: "agent_id a = p"
        by (simp add: agent_findById_SomeD)
      have "agent_findById s' p = Some (a\<lparr>agent_status := AgentActive\<rparr>)"
        using a ia p find_map_key[of agent_id
            "\<lambda>a. if agent_id a \<in> set (dto_participantIds data) then a\<lparr>agent_status := AgentActive\<rparr> else a"
            p "agents s"]
        by (simp add: agent_findById_def facts(8))
      then show "\<exists>a. agent_findById s' p = Some a \<and> agent_status a = AgentActive" by simp
    qed
    with facts show "conv_status c = Active \<and> conv_messages c = []
        \<and> conv_participants c = ?ps
        \<and> conversations s' = conversations s @ [c]
        \<and> (\<forall>p\<in>set ?ps. \<exists>a. agent_findById s' p = Some a \<and> agent_status a = AgentActive)"
      by simp
  qed
  have F: "\<forall>s'. createConversation data now ok s = (Inl PromptFailed, s') \<longrightarrow>
        \<not> ok \<and> (\<exists>c. createConversation data now True s = (Inr c, s'))"
  proof (intro allI impI)
    fix s' assume h: "createConversation data now ok s = (Inl PromptFailed, s')"
    obtain r s1 where t: "createConversation data now True s = (r, s1)" by force
    have nt: "r \<noteq> Inl PromptFailed"
      using createConversation_True_error[of data now s PromptFailed] t by auto
    show "\<not> ok \<and> (\<exists>c. createConversation data now True s = (Inr c, s'))"
      using h t nt
      by (subst (asm) createConversation_prompt) (auto split: sum.splits if_splits)
  qed
  show ?thesis by (intro conjI A B E1 E2 E3 E4 D F)
qed

text \<open>C2 at concrete calls over the two busy agents: with a free name, the participants 1
  and 2 and the participants 1 and 99 (no such agent) are both refused with
  \<open>AgentNotAvailable\<close>, the participants 99 and 1 with \<open>AgentNotFound\<close>, and nothing
  changes. The first conversation succeeded and reserved both agents; had its closing prompt
  rejected, the call would have failed with the same store written.\<close>

theorem C2_witness:
  "createConversation (talkDTO\<lparr>dto_name := ''U''\<rparr>) 40 True busyStore = (Inl AgentNotAvailable, busyStore)
 \<and> createConversation (talkDTO\<lparr>dto_name := ''U'', dto_participantIds := [1, 99]\<rparr>) 40 True busyStore
     = (Inl AgentNotAvailable, busyStore)
 \<and> createConversation (talkDTO\<lparr>dto_name := ''U'', dto_participantIds := [99, 1]\<rparr>) 40 True busyStore
     = (Inl AgentNotFound, busyStore)
 \<and> createConversation talkDTO 10 True idleStore = (Inr talk, busyStore)
 \<and> conv_status talk = Active \<and> conv_messages talk = []
 \<and> (\<exists>a. agent_findById busyStore 1 = Some a \<and> agent_status a = AgentActive)
 \<and> (\<exists>a. agent_findById busyStore 2 = Some a \<and> agent_status a = AgentActive)
 \<and> createConversation talkDTO 10 False idleStore = (Inl PromptFailed, busyStore)"
proof -
  let ?u = "talkDTO\<lparr>dto_name := ''U''\<rparr>"
  let ?v = "talkDTO\<lparr>dto_name := ''U'', dto_participantIds := [1, 99]\<rparr>"
  let ?w = "talkDTO\<lparr>dto_name := ''U'', dto_participantIds := [99, 1]\<rparr>"
  have un: "unavailable busyStore 1" "unavailable busyStore 99"
    "agent_findById busyStore 1 \<noteq> None" "agent_findById busyStore 99 = None"
    by (simp_all add: unavailable_def example_defs repo_defs)
  have free: "\<not> isNameTaken busyStore ''U''"
    by (simp add: isNameTaken_def example_defs repo_defs)
  have pu: "\<not> isNameTaken busyStore (dto_name ?u)
        \<and> 2 \<le> length (dto_participantIds ?u) \<and> length (dto_participantIds ?u) \<le> 10
        \<and> (\<exists>p. find (unavailable busyStore) (dto_participantIds ?u) = Some p \<and> agent_findById busyStore p \<noteq> None)"
    using un free by (simp add: talkDTO_def)
  have pv: "\<not> isNameTaken busyStore (dto_name ?v)
        \<and> 2 \<le> length (dto_participantIds ?v) \<and> length (dto_participantIds ?v) \<le> 10
        \<and> (\<exists>p. find (unavailable busyStore) (dto_participantIds ?v) = Some p \<and> agent_findById busyStore p \<noteq> None)"
    using un free by (simp add: talkDTO_def)
  have pw: "\<not> isNameTaken busyStore (dto_name ?w)
        \<and> 2 \<le> length (dto_participantIds ?w) \<and> length (dto_participantIds ?w) \<le> 10
        \<and> (\<exists>p. find (unavailable busyStore) (dto_participantIds ?w) = Some p \<and> agent_findById busyStore p = None)"
    using un free by (simp add: talkDTO_def)
  note tu = C2_createConversation[of ?u 40 True busyStore]
  note tv = C2_createConversation[of ?v 40 True busyStore]
  note tw = C2_createConversation[of ?w 40 True busyStore]
  note ti = C2_createConversation[of talkDTO 10 True idleStore]
  have fu: "fst (createConversation ?u 40 True busyStore) = Inl AgentNotAvailable"
    using tu[THEN conjunct2, THEN conjunct2, THEN conjunct2, THEN conjunct2, THEN conjunct1] pu
    by blast
  have fv: "fst (createConversation ?v 40 True busyStore) = Inl AgentNotAvailable"
    using tv[THEN conjunct2, THEN conjunct2, THEN conjunct2, THEN conjunct2, THEN conjunct1] pv
    by blast
  have fw: "fst (createConversation ?w 40 True busyStore) = Inl AgentNotFound"
    using tw[THEN conjunct2, THEN conjunct2, THEN conjunct2, THEN conjunct2, THEN conjunct2,
        THEN conjunct1] pw
    by blast
  have a: "createConversation ?u 40 True busyStore = (Inl AgentNotAvailable, busyStore)"
    using tu[THEN conjunct1, rule_format, of AgentNotAvailable] fu
    by (simp add: prod_eq_iff)
  have b: "createConversation ?v 40 True busyStore = (Inl AgentNotAvailable, busyStore)"
    using tv[THEN conjunct1, rule_format, of AgentNotAvailable] fv
    by (simp add: prod_eq_iff)
  have c: "createConversation ?w 40 True busyStore = (Inl AgentNotFound, busyStore)"
    using tw[THEN conjunct1, rule_format, of AgentNotFound] fw
    by (simp add: prod_eq_iff)
  have d: "conv_status talk = Active \<and> conv_messages talk = []
      \<and> conv_participants talk = dto_participantIds talkDTO
      \<and> conversations busyStore = conversations idleStore @ [talk]
      \<and> (\<forall>p\<in>set (dto_participantIds talkDTO).
            \<exists>a. agent_findById busyStore p = Some a \<and> agent_status a = AgentActive)"
    using ti[THEN conjunct2, THEN conjunct2, THEN conjunct2, THEN conjunct2, THEN conjunct2,
        THEN conjunct2, THEN conjunct1, rule_format, OF create_idle] .
  have e: "createConversation talkDTO 10 False idleStore = (Inl PromptFailed, busyStore)"
    by (subst createConversation_prompt) (simp add: create_idle)
  have ps: "dto_participantIds talkDTO = [1, 2]" by (simp add: talkDTO_def)
  show ?thesis using a b c d e create_idle unfolding ps by simp
qed

text \<open>C2 as stated fails: agent 1 is listed and active, yet the call is refused with
  \<open>DuplicateName\<close>, because the name is checked first.\<close>

theorem C2_counterexample:
  "map_option agent_status (agent_findById busyStore 1) = Some AgentActive
 \<and> 1 \<in> set (dto_participantIds talkDTO)
 \<and> createConversation talkDTO 40 True busyStore = (Inl DuplicateName, busyStore)"
  by (simp add: createConversation_def isNameTaken_def example_defs repo_defs)

text \<open>
  C4. On a conversation that is completed or terminated, \<^verbatim>\<open>completeConversation\<close> and
  \<^verbatim>\<open>terminateConversation\<close> (and pause and unpause) fail with \<open>InvalidState\<close> and return
  the store unchanged, so neither the conversation nor any agent changes. A successful
  complete (from active) or terminate (from active or paused) leaves the conversation in a
  terminal state with every participant found inactive, and a second complete or terminate
  on that store is rejected and changes nothing: the release happens once.
\<close>

theorem C4_terminal_rejects:
  "(conv_findById s i = Some c \<and> (conv_status c = Completed \<or> conv_status c = Terminated) \<longrightarrow>
      completeConversation i g now s = (Inl InvalidState, s)
    \<and> terminateConversation i now s = (Inl InvalidState, s)
    \<and> pauseConversation i s = (Inl InvalidState, s)
    \<and> unpauseConversation i s = (Inl InvalidState, s))
 \<and> (conv_findById s i = Some c \<and> conv_status c = Active \<longrightarrow>
      (\<exists>c' s'. completeConversation i g now s = (Inr c', s')
         \<and> conv_findById s' i = Some c' \<and> conv_status c' = Completed
         \<and> (\<forall>p\<in>set (conv_participants c). \<forall>a. agent_findById s' p = Some a \<longrightarrow> agent_status a = AgentInactive)
         \<and> completeConversation i g2 now2 s' = (Inl InvalidState, s')
         \<and> terminateConversation i now2 s' = (Inl InvalidState, s')))
 \<and> (conv_findById s i = Some c \<and> (conv_status c = Active \<or> conv_status c = Paused) \<longrightarrow>
      (\<exists>c' s'. terminateConversation i now s = (Inr c', s')
         \<and> conv_findById s' i = Some c' \<and> conv_status c' = Terminated
         \<and> (\<forall>p\<in>set (conv_participants c). \<forall>a. agent_findById s' p = Some a \<longrightarrow> agent_status a = AgentInactive)
         \<and> completeConversation i g2 now2 s' = (Inl InvalidState, s')
         \<and> terminateConversation i now2 s' = (Inl InvalidState, s')))"
proof -
  have A: "conv_findById s i = Some c \<and> (conv_status c = Completed \<or> conv_status c = Terminated) \<longrightarrow>
      completeConversation i g now s = (Inl InvalidState, s)
    \<and> terminateConversation i now s = (Inl InvalidState, s)
    \<and> pauseConversation i s = (Inl InvalidState, s)
    \<and> unpauseConversation i s = (Inl InvalidState, s)"
    by (auto simp: completeConversation_def terminateConversation_def pauseConversation_def
          unpauseConversation_def)
  have B: "conv_findById s i = Some c \<and> conv_status c = Active \<longrightarrow>
      (\<exists>c' s'. completeConversation i g now s = (Inr c', s')
         \<and> conv_findById s' i = Some c' \<and> conv_status c' = Completed
         \<and> (\<forall>p\<in>set (conv_participants c). \<forall>a. agent_findById s' p = Some a \<longrightarrow> agent_status a = AgentInactive)
         \<and> completeConversation i g2 now2 s' = (Inl InvalidState, s')
         \<and> terminateConversation i now2 s' = (Inl InvalidState, s'))"
  proof
    assume h: "conv_findById s i = Some c \<and> conv_status c = Active"
    define p where "p = \<lparr>patch_status = Completed, patch_endedAt = Some now, patch_goalAchieved = Some g\<rparr>"
    define s' where "s' = (setParticipants AgentInactive (conv_participants c) s)
              \<lparr>conversations := map (\<lambda>c. if conv_id c = i then applyPatch p c else c) (conversations s)\<rparr>"
    have r: "completeConversation i g now s = (Inr (applyPatch p c), s')"
      using h release_result[of s i c p] by (simp add: completeConversation_def p_def s'_def)
    have f2: "conv_findById s' i = Some (applyPatch p c)"
      using h find_map_upd[of conv_id "applyPatch p" i "conversations s"]
      by (simp add: s'_def conv_findById_def)
    have st: "conv_status (applyPatch p c) = Completed" by (simp add: p_def)
    have rel: "\<forall>q\<in>set (conv_participants c). \<forall>a. agent_findById s' q = Some a \<longrightarrow> agent_status a = AgentInactive"
      unfolding s'_def by (blast intro: released_inactive)
    have again: "completeConversation i g2 now2 s' = (Inl InvalidState, s')"
      "terminateConversation i now2 s' = (Inl InvalidState, s')"
      using f2 st by (simp_all add: completeConversation_def terminateConversation_def)
    show "\<exists>c' s'. completeConversation i g now s = (Inr c', s')
         \<and> conv_findById s' i = Some c' \<and> conv_status c' = Completed
         \<and> (\<forall>p\<in>set (conv_participants c). \<forall>a. agent_findById s' p = Some a \<longrightarrow> agent_status a = AgentInactive)
         \<and> completeConversation i g2 now2 s' = (Inl InvalidState, s')
         \<and> terminateConversation i now2 s' = (Inl InvalidState, s')"
      using r f2 st rel again by blast
  qed
  have C: "conv_findById s i = Some c \<and> (conv_status c = Active \<or> conv_status c = Paused) \<longrightarrow>
      (\<exists>c' s'. terminateConversation i now s = (Inr c', s')
         \<and> conv_findById s' i = Some c' \<and> conv_status c' = Terminated
         \<and> (\<forall>p\<in>set (conv_participants c). \<forall>a. agent_findById s' p = Some a \<longrightarrow> agent_status a = AgentInactive)
         \<and> completeConversation i g2 now2 s' = (Inl InvalidState, s')
         \<and> terminateConversation i now2 s' = (Inl InvalidState, s'))"
  proof
    assume h: "conv_findById s i = Some c \<and> (conv_status c = Active \<or> conv_status c = Paused)"
    define p where "p = \<lparr>patch_status = Terminated, patch_endedAt = Some now, patch_goalAchieved = Some False\<rparr>"
    define s' where "s' = (setParticipants AgentInactive (conv_participants c) s)
              \<lparr>conversations := map (\<lambda>c. if conv_id c = i then applyPatch p c else c) (conversations s)\<rparr>"
    have r: "terminateConversation i now s = (Inr (applyPatch p c), s')"
      using h release_result[of s i c p] by (auto simp add: terminateConversation_def p_def s'_def)
    have f2: "conv_findById s' i = Some (applyPatch p c)"
      using h find_map_upd[of conv_id "applyPatch p" i "conversations s"]
      by (simp add: s'_def conv_findById_def)
    have st: "conv_status (applyPatch p c) = Terminated" by (simp add: p_def)
    have rel: "\<forall>q\<in>set (conv_participants c). \<forall>a. agent_findById s' q = Some a \<longrightarrow> agent_status a = AgentInactive"
      unfolding s'_def by (blast intro: released_inactive)
    have again: "completeConversation i g2 now2 s' = (Inl InvalidState, s')"
      "terminateConversation i now2 s' = (Inl InvalidState, s')"
      using f2 st by (simp_all add: completeConversation_def terminateConversation_def)
    show "\<exists>c' s'. terminateConversation i now s = (Inr c', s')
         \<and> conv_findById s' i = Some c' \<and> conv_status c' = Terminated
         \<and> (\<forall>p\<in>set (conv_participants c). \<forall>a. agent_findById s' p = Some a \<longrightarrow> agent_status a = AgentInactive)
         \<and> completeConversation i g2 now2 s' = (Inl InvalidState, s')
         \<and> terminateConversation i now2 s' = (Inl InvalidState, s')"
      using r f2 st rel again by blast
  qed
  show ?thesis by (intro conjI A B C)
qed

text \<open>C4 on the terminated, the running and the paused example store.\<close>

theorem C4_witness:
  "completeConversation 3 True 30 endedStore = (Inl InvalidState, endedStore)
 \<and> terminateConversation 3 30 endedStore = (Inl InvalidState, endedStore)
 \<and> pauseConversation 3 endedStore = (Inl InvalidState, endedStore)
 \<and> unpauseConversation 3 endedStore = (Inl InvalidState, endedStore)
 \<and> (\<exists>c' s'. completeConversation 3 True 20 busyStore = (Inr c', s')
       \<and> conv_findById s' 3 = Some c' \<and> conv_status c' = Completed
       \<and> completeConversation 3 False 30 s' = (Inl InvalidState, s')
       \<and> terminateConversation 3 30 s' = (Inl InvalidState, s'))
 \<and> (\<exists>c' s'. terminateConversation 3 20 pausedStore = (Inr c', s')
       \<and> conv_findById s' 3 = Some c' \<and> conv_status c' = Terminated
       \<and> completeConversation 3 False 30 s' = (Inl InvalidState, s')
       \<and> terminateConversation 3 30 s' = (Inl InvalidState, s'))"
proof -
  have f: "conv_findById endedStore 3 = Some (talk\<lparr>conv_status := Terminated, conv_endedAt := Some 20\<rparr>)"
    "conv_findById busyStore 3 = Some talk"
    "conv_findById pausedStore 3 = Some (talk\<lparr>conv_status := Paused\<rparr>)"
    "conv_status talk = Active"
    by (simp_all add: example_defs conv_findById_def)
  have a: "completeConversation 3 True 30 endedStore = (Inl InvalidState, endedStore)
    \<and> terminateConversation 3 30 endedStore = (Inl InvalidState, endedStore)
    \<and> pauseConversation 3 endedStore = (Inl InvalidState, endedStore)
    \<and> unpauseConversation 3 endedStore = (Inl InvalidState, endedStore)"
    using C4_terminal_rejects[of endedStore 3 "talk\<lparr>conv_status := Terminated, conv_endedAt := Some 20\<rparr>" True 30]
      f(1) by simp
  have b: "\<exists>c' s'. completeConversation 3 True 20 busyStore = (Inr c', s')
       \<and> conv_findById s' 3 = Some c' \<and> conv_status c' = Completed
       \<and> completeConversation 3 False 30 s' = (Inl InvalidState, s')
       \<and> terminateConversation 3 30 s' = (Inl InvalidState, s')"
    using C4_terminal_rejects[of busyStore 3 talk True 20 False 30] f(2,4) by blast
  have c: "\<exists>c' s'. terminateConversation 3 20 pausedStore = (Inr c', s')
       \<and> conv_findById s' 3 = Some c' \<and> conv_status c' = Terminated
       \<and> completeConversation 3 False 30 s' = (Inl InvalidState, s')
       \<and> terminateConversation 3 30 s' = (Inl InvalidState, s')"
    using C4_terminal_rejects[of pausedStore 3 "talk\<lparr>conv_status := Paused\<rparr>" True 20 False 30] f(3)
    by (simp del: ex_simps) blast
  show ?thesis using a b c by simp
qed

text \<open>
  C5. Pausing an active conversation and unpausing it again returns the very record that
  was there before (so its participants and its messages are unchanged, and its status
  is active again); neither call touches an agent, so every participant that was active
  stays active while the conversation is paused. Where conversation ids are distinct, the
  whole store is back to what it was.
\<close>

theorem C5_pause_unpause_roundtrip:
  assumes "conv_findById s i = Some c" and "conv_status c = Active"
  shows "pauseConversation i s = (Inr (c\<lparr>conv_status := Paused\<rparr>), snd (pauseConversation i s))
       \<and> conv_findById (snd (pauseConversation i s)) i = Some (c\<lparr>conv_status := Paused\<rparr>)
       \<and> agents (snd (pauseConversation i s)) = agents s
       \<and> (\<forall>p\<in>set (conv_participants c). \<forall>a. agent_findById s p = Some a \<and> agent_status a = AgentActive
             \<longrightarrow> agent_findById (snd (pauseConversation i s)) p = Some a)
       \<and> fst (unpauseConversation i (snd (pauseConversation i s))) = Inr c
       \<and> conv_findById (snd (unpauseConversation i (snd (pauseConversation i s)))) i = Some c
       \<and> agents (snd (unpauseConversation i (snd (pauseConversation i s)))) = agents s
       \<and> (distinct (map conv_id (conversations s))
            \<longrightarrow> snd (unpauseConversation i (snd (pauseConversation i s))) = s)"
proof -
  define pP where "pP = \<lparr>patch_status = Paused, patch_endedAt = None, patch_goalAchieved = None\<rparr>"
  define pA where "pA = \<lparr>patch_status = Active, patch_endedAt = None, patch_goalAchieved = None\<rparr>"
  define cP where "cP = c\<lparr>conv_status := Paused\<rparr>"
  define s1 where "s1 = s\<lparr>conversations := map (\<lambda>c. if conv_id c = i then applyPatch pP c else c) (conversations s)\<rparr>"
  define s2 where "s2 = s1\<lparr>conversations := map (\<lambda>c. if conv_id c = i then applyPatch pA c else c) (conversations s1)\<rparr>"
  have aP: "applyPatch pP c = cP" by (simp add: pP_def cP_def applyPatch_status_only)
  have aA: "applyPatch pA cP = c"
    using assms(2) by (simp add: pA_def cP_def applyPatch_status_only)
  have p: "pauseConversation i s = (Inr cP, s1)"
    using assms conv_update_result[OF assms(1), of pP]
    by (simp add: pauseConversation_def pP_def[symmetric] aP s1_def)
  have f1: "conv_findById s1 i = Some cP"
    using conv_update_found(2)[OF assms(1), of pP] conv_update_result[OF assms(1), of pP]
    by (simp add: s1_def aP)
  have u: "unpauseConversation i s1 = (Inr c, s2)"
    using f1 conv_update_result[OF f1, of pA]
    by (simp add: unpauseConversation_def pA_def[symmetric] aA s2_def) (simp add: cP_def)
  have f2: "conv_findById s2 i = Some c"
    using conv_update_found(2)[OF f1, of pA] conv_update_result[OF f1, of pA]
    by (simp add: s2_def aA)
  have ag1: "agents s1 = agents s" by (simp add: s1_def)
  have ag2: "agents s2 = agents s" by (simp add: s2_def s1_def)
  have restored: "s2 = s" if d: "distinct (map conv_id (conversations s))"
  proof -
    have only: "x = c" if "x \<in> set (conversations s)" and "conv_id x = i" for x
      using distinct_key_eq[OF d that(1), of c] conv_findById_SomeD[OF assms(1)] that(2) by simp
    have "map (\<lambda>c. if conv_id c = i then applyPatch pA c else c)
            (map (\<lambda>c. if conv_id c = i then applyPatch pP c else c) (conversations s))
          = conversations s"
      unfolding map_map by (rule map_idI) (auto simp: aP aA dest: only)
    then show ?thesis by (simp add: s2_def s1_def)
  qed
  show ?thesis
    using p u f1 f2 ag1 ag2 restored
    by (simp add: cP_def agent_findById_def)
qed

text \<open>C5 on the example conversation: paused with both participants still active, and
  back to the store it started from.\<close>

theorem C5_witness:
  "conv_findById busyStore 3 = Some talk \<and> conv_status talk = Active
 \<and> distinct (map conv_id (conversations busyStore))
 \<and> pauseConversation 3 busyStore = (Inr (talk\<lparr>conv_status := Paused\<rparr>), pausedStore)
 \<and> map_option agent_status (agent_findById pausedStore 1) = Some AgentActive
 \<and> map_option agent_status (agent_findById pausedStore 2) = Some AgentActive
 \<and> unpauseConversation 3 pausedStore = (Inr talk, busyStore)"
proof -
  have p: "pauseConversation 3 busyStore = (Inr (talk\<lparr>conv_status := Paused\<rparr>), pausedStore)"
    by (simp add: pauseConversation_def example_defs repo_defs)
  have u: "unpauseConversation 3 pausedStore = (Inr talk, busyStore)"
    by (simp add: unpauseConversation_def example_defs repo_defs)
  have f: "conv_findById busyStore 3 = Some talk" "conv_status talk = Active"
    by (simp_all add: example_defs repo_defs)
  have g: "map_option agent_status (agent_findById pausedStore 1) = Some AgentActive"
    "map_option agent_status (agent_findById pausedStore 2) = Some AgentActive"
    by (simp_all add: example_defs repo_defs)
  have d: "distinct (map conv_id (conversations busyStore))"
    by (simp add: example_defs)
  show ?thesis
    using C5_pause_unpause_roundtrip[OF f] f g d unfolding p u
    by simp
qed

text \<open>
  C3, as the code has it. \<^verbatim>\<open>addMessage\<close> on a conversation that is not active fails
  with \<open>InvalidState\<close>, whoever sends. On an active conversation it fails with
  \<open>NotParticipant\<close> when the sender is not a participant, and, the sender being one,
  with \<open>InvalidRecipients\<close> when an explicit recipient is not a participant. Every failure
  leaves the store unchanged. On success exactly one message is appended to the
  conversation, no agent changes, and the stored recipients are the participant list when
  the input was the sentinel "all" and the explicit list otherwise.
\<close>

theorem C3_addMessage:
  assumes "conv_findById s (am_conversationId data) = Some c"
  shows "(conv_status c \<noteq> Active \<longrightarrow> addMessage data now s = (Inl InvalidState, s))
 \<and> (conv_status c = Active \<and> am_senderId data \<notin> set (conv_participants c)
      \<longrightarrow> addMessage data now s = (Inl NotParticipant, s))
 \<and> (conv_status c = Active \<and> am_senderId data \<in> set (conv_participants c)
      \<and> (\<exists>rs. am_recipients data = Only rs \<and> \<not> set rs \<subseteq> set (conv_participants c))
      \<longrightarrow> addMessage data now s = (Inl InvalidRecipients, s))
 \<and> (\<forall>m s'. addMessage data now s = (Inr m, s') \<longrightarrow>
        conv_status c = Active
      \<and> conv_findById s' (am_conversationId data) = Some (c\<lparr>conv_messages := conv_messages c @ [m]\<rparr>)
      \<and> getConversationMessages (am_conversationId data) s' = Inr (conv_messages c @ [m])
      \<and> agents s' = agents s
      \<and> msg_senderId m = am_senderId data \<and> msg_content m = am_content data
      \<and> msg_recipients m = (case am_recipients data of All \<Rightarrow> conv_participants c | Only rs \<Rightarrow> rs))"
proof -
  have A: "conv_status c \<noteq> Active \<longrightarrow> addMessage data now s = (Inl InvalidState, s)"
    using assms by (simp add: addMessage_def)
  have B: "conv_status c = Active \<and> am_senderId data \<notin> set (conv_participants c)
      \<longrightarrow> addMessage data now s = (Inl NotParticipant, s)"
    using assms by (simp add: addMessage_def)
  have C: "conv_status c = Active \<and> am_senderId data \<in> set (conv_participants c)
      \<and> (\<exists>rs. am_recipients data = Only rs \<and> \<not> set rs \<subseteq> set (conv_participants c))
      \<longrightarrow> addMessage data now s = (Inl InvalidRecipients, s)"
    using assms by (auto simp: addMessage_def filter_empty_conv)
  have D: "\<forall>m s'. addMessage data now s = (Inr m, s') \<longrightarrow>
        conv_status c = Active
      \<and> conv_findById s' (am_conversationId data) = Some (c\<lparr>conv_messages := conv_messages c @ [m]\<rparr>)
      \<and> getConversationMessages (am_conversationId data) s' = Inr (conv_messages c @ [m])
      \<and> agents s' = agents s
      \<and> msg_senderId m = am_senderId data \<and> msg_content m = am_content data
      \<and> msg_recipients m = (case am_recipients data of All \<Rightarrow> conv_participants c | Only rs \<Rightarrow> rs)"
  proof (intro allI impI)
    fix m s' assume ok: "addMessage data now s = (Inr m, s')"
    define m0 where "m0 = \<lparr>msg_id = 0, msg_conversationId = am_conversationId data,
        msg_senderId = am_senderId data, msg_content = am_content data,
        msg_recipients = (case am_recipients data of All \<Rightarrow> conv_participants c | Only rs \<Rightarrow> rs),
        msg_timestamp = now\<rparr>"
    from ok assms have act: "conv_status c = Active"
      by (auto simp: addMessage_def split: if_splits)
    from ok assms have r: "conv_addMessage (am_conversationId data) m0 s = (m, s')"
      by (auto simp: addMessage_def m0_def split: if_splits prod.splits)
    have f: "conv_findById s' (am_conversationId data) = Some (c\<lparr>conv_messages := conv_messages c @ [m]\<rparr>)"
      using conv_addMessage_found[OF assms, of m0] r by simp
    have g: "getConversationMessages (am_conversationId data) s' = Inr (conv_messages c @ [m])"
      using f by (simp add: getConversationMessages_def conv_getMessages_def)
    have flds: "agents s' = agents s" "msg_senderId m = am_senderId data" "msg_content m = am_content data"
      "msg_recipients m = (case am_recipients data of All \<Rightarrow> conv_participants c | Only rs \<Rightarrow> rs)"
      using r by (auto simp: conv_addMessage_def Let_def m0_def)
    show "conv_status c = Active
      \<and> conv_findById s' (am_conversationId data) = Some (c\<lparr>conv_messages := conv_messages c @ [m]\<rparr>)
      \<and> getConversationMessages (am_conversationId data) s' = Inr (conv_messages c @ [m])
      \<and> agents s' = agents s
      \<and> msg_senderId m = am_senderId data \<and> msg_content m = am_content data
      \<and> msg_recipients m = (case am_recipients data of All \<Rightarrow> conv_participants c | Only rs \<Rightarrow> rs)"
      using act f g flds by simp
  qed
  show ?thesis by (intro conjI A B C D)
qed

text \<open>C3 on the paused, the terminated and the running example conversation.\<close>

theorem C3_witness:
  "addMessage hello 15 pausedStore = (Inl InvalidState, pausedStore)
 \<and> addMessage hello 15 endedStore = (Inl InvalidState, endedStore)
 \<and> addMessage (hello\<lparr>am_senderId := 7\<rparr>) 15 busyStore = (Inl NotParticipant, busyStore)
 \<and> addMessage (hello\<lparr>am_recipients := Only [2, 7]\<rparr>) 15 busyStore = (Inl InvalidRecipients, busyStore)
 \<and> addMessage hello 15 busyStore = (Inr helloMsg, chattingStore)
 \<and> getConversationMessages 3 chattingStore = Inr [helloMsg]
 \<and> msg_recipients helloMsg = conv_participants talk"
proof -
  have f: "conv_findById pausedStore (am_conversationId hello) = Some (talk\<lparr>conv_status := Paused\<rparr>)"
    "conv_findById endedStore (am_conversationId hello) = Some (talk\<lparr>conv_status := Terminated, conv_endedAt := Some 20\<rparr>)"
    "conv_findById busyStore (am_conversationId (hello\<lparr>am_senderId := 7\<rparr>)) = Some talk"
    "conv_findById busyStore (am_conversationId (hello\<lparr>am_recipients := Only [2, 7]\<rparr>)) = Some talk"
    "conv_findById busyStore (am_conversationId hello) = Some talk"
    by (simp_all add: example_defs2 repo_defs)
  have a: "addMessage hello 15 pausedStore = (Inl InvalidState, pausedStore)"
    using C3_addMessage[OF f(1), of 15, THEN conjunct1] by simp
  have b: "addMessage hello 15 endedStore = (Inl InvalidState, endedStore)"
    using C3_addMessage[OF f(2), of 15, THEN conjunct1] by simp
  have c: "addMessage (hello\<lparr>am_senderId := 7\<rparr>) 15 busyStore = (Inl NotParticipant, busyStore)"
    using C3_addMessage[OF f(3), of 15, THEN conjunct2, THEN conjunct1] by (simp add: example_defs2)
  have d: "addMessage (hello\<lparr>am_recipients := Only [2, 7]\<rparr>) 15 busyStore = (Inl InvalidRecipients, busyStore)"
    using C3_addMessage[OF f(4), of 15, THEN conjunct2, THEN conjunct2, THEN conjunct1]
    by (simp add: example_defs2)
  have e: "getConversationMessages 3 chattingStore = Inr [helloMsg]
     \<and> msg_recipients helloMsg = conv_participants talk"
    using C3_addMessage[OF f(5), of 15, THEN conjunct2, THEN conjunct2, THEN conjunct2,
        rule_format, OF hello_busy]
    by (simp add: example_defs2)
  show ?thesis using a b c d e hello_busy by simp
qed

text \<open>C3 as stated fails: on a paused conversation a sender who is no participant is
  refused with \<open>InvalidState\<close>, not with \<open>NotParticipant\<close>; the status is checked first.\<close>

theorem C3_counterexample:
  "conv_findById pausedStore 3 = Some (talk\<lparr>conv_status := Paused\<rparr>)
 \<and> 7 \<notin> set (conv_participants (talk\<lparr>conv_status := Paused\<rparr>))
 \<and> addMessage (hello\<lparr>am_senderId := 7\<rparr>) 15 pausedStore = (Inl InvalidState, pausedStore)
 \<and> addMessage (hello\<lparr>am_senderId := 7\<rparr>) 15 pausedStore \<noteq> (Inl NotParticipant, pausedStore)"
  by (simp add: addMessage_def example_defs2 repo_defs)


section \<open>Claims about the agent registry\<close>

text \<open>
  C8, as the code has it. \<^verbatim>\<open>createAgent\<close> fails with \<open>InvalidInput\<close> when the name has
  fewer than 3 characters and, the name being long enough, with \<open>DuplicateName\<close> when an
  agent has exactly that name (names that differ in case are different). A created agent
  has the status the request gives, and is inactive when the request gives none.
\<close>

theorem C8_createAgent:
  "(length (ca_name data) < 3 \<longrightarrow> createAgent data now s = (Inl InvalidInput, s))
 \<and> (3 \<le> length (ca_name data) \<and> (\<exists>a\<in>set (agents s). agent_name a = ca_name data)
      \<longrightarrow> createAgent data now s = (Inl DuplicateName, s))
 \<and> (\<forall>a s'. createAgent data now s = (Inr a, s') \<longrightarrow>
        agent_status a = (case ca_status data of None \<Rightarrow> AgentInactive | Some st \<Rightarrow> st)
      \<and> agent_name a = ca_name data \<and> agent_type a = ca_type data
      \<and> agents s' = agents s @ [a] \<and> conversations s' = conversations s
      \<and> 3 \<le> length (ca_name data) \<and> (\<forall>b\<in>set (agents s). agent_name b \<noteq> ca_name data))"
proof -
  have taken: "isAgentNameTaken s n \<longleftrightarrow> (\<exists>a\<in>set (agents s). agent_name a = n)" for n
    by (auto simp: isAgentNameTaken_def agent_findByName_def find_None_iff)
  have A: "length (ca_name data) < 3 \<longrightarrow> createAgent data now s = (Inl InvalidInput, s)"
    by (simp add: createAgent_def)
  have B: "3 \<le> length (ca_name data) \<and> (\<exists>a\<in>set (agents s). agent_name a = ca_name data)
      \<longrightarrow> createAgent data now s = (Inl DuplicateName, s)"
    using taken[of "ca_name data"] by (auto simp: createAgent_def)
  have C: "\<forall>a s'. createAgent data now s = (Inr a, s') \<longrightarrow>
        agent_status a = (case ca_status data of None \<Rightarrow> AgentInactive | Some st \<Rightarrow> st)
      \<and> agent_name a = ca_name data \<and> agent_type a = ca_type data
      \<and> agents s' = agents s @ [a] \<and> conversations s' = conversations s
      \<and> 3 \<le> length (ca_name data) \<and> (\<forall>b\<in>set (agents s). agent_name b \<noteq> ca_name data)"
    using taken[of "ca_name data"]
    by (auto simp: createAgent_def agent_create_def Let_def split: if_splits)
  show ?thesis by (intro conjI A B C)
qed

text \<open>C8 at three names: too short, taken, and differing from a taken one only in case.\<close>

theorem C8_witness:
  "createAgent (carolDTO\<lparr>ca_name := ''ca''\<rparr>) 5 idleStore = (Inl InvalidInput, idleStore)
 \<and> createAgent (carolDTO\<lparr>ca_name := ''alice''\<rparr>) 5 idleStore = (Inl DuplicateName, idleStore)
 \<and> (\<exists>a s'. createAgent (carolDTO\<lparr>ca_name := ''Alice''\<rparr>) 5 idleStore = (Inr a, s')
        \<and> agent_status a = AgentInactive \<and> agent_name a = ''Alice'')"
proof -
  have a: "createAgent (carolDTO\<lparr>ca_name := ''ca''\<rparr>) 5 idleStore = (Inl InvalidInput, idleStore)"
    using C8_createAgent[of "carolDTO\<lparr>ca_name := ''ca''\<rparr>" 5 idleStore, THEN conjunct1] by simp
  have b: "createAgent (carolDTO\<lparr>ca_name := ''alice''\<rparr>) 5 idleStore = (Inl DuplicateName, idleStore)"
    using C8_createAgent[of "carolDTO\<lparr>ca_name := ''alice''\<rparr>" 5 idleStore, THEN conjunct2, THEN conjunct1]
    by (simp add: example_defs)
  obtain a s' where r: "createAgent (carolDTO\<lparr>ca_name := ''Alice''\<rparr>) 5 idleStore = (Inr a, s')"
    by (simp add: createAgent_def isAgentNameTaken_def example_defs2 repo_defs)
  have c: "agent_status a = AgentInactive \<and> agent_name a = ''Alice''"
    using C8_createAgent[of "carolDTO\<lparr>ca_name := ''Alice''\<rparr>" 5 idleStore, THEN conjunct2, THEN conjunct2,
        rule_format, OF r]
    by (simp add: carolDTO_def)
  show ?thesis using a b c r by blast
qed

text \<open>C8 as stated fails: a request that gives the status active creates an active agent.\<close>

theorem C8_counterexample:
  "fst (createAgent (carolDTO\<lparr>ca_status := Some AgentActive\<rparr>) 5 idleStore)
   = Inr \<lparr>agent_id = 3, agent_name = ''carol'', agent_type = Specialist, agent_description = None,
          agent_status = AgentActive, agent_createdAt = 5\<rparr>"
  by (simp add: createAgent_def isAgentNameTaken_def example_defs2 repo_defs)


section \<open>Claims about reservations and the pause-all sweep\<close>

text \<open>
  C1. Start from a registry with no conversation and every agent inactive, and make any
  sequence of lifecycle calls: create (whether or not its closing prompt resolves), complete
  and terminate, and also pause, unpause, pause-all and add-message, each of which may
  succeed or be refused. In the store reached,
  an agent is active if and only if it is a participant of a conversation that is active
  or paused.
\<close>

theorem C1_active_iff_reserved:
  assumes "freshRegistry s0" and "a \<in> set (agents (performAll calls s0))"
  shows "(agent_status a = AgentActive)
       = (\<exists>c\<in>set (conversations (performAll calls s0)).
            (conv_status c = Active \<or> conv_status c = Paused) \<and> agent_id a \<in> set (conv_participants c))"
proof -
  have "reservationInv (performAll calls s0)"
    using assms(1) by (intro inv_performAll inv_fresh)
  then have "(agent_status a = AgentActive)
     = reservedIn (map cview (conversations (performAll calls s0))) (agent_id a)"
    using assms(2) unfolding reservationInv_def invOn_def by blast
  then show ?thesis unfolding reservedIn_views .
qed

text \<open>C1 after creating and pausing the example conversation: agent 1 is active and is a
  participant of the paused conversation.\<close>

theorem C1_witness:
  "freshRegistry idleStore
 \<and> performAll [CreateConversation talkDTO 10 True, PauseConversation 3] idleStore = pausedStore
 \<and> (\<exists>c\<in>set (conversations pausedStore).
       (conv_status c = Active \<or> conv_status c = Paused) \<and> 1 \<in> set (conv_participants c))"
proof -
  have fresh: "freshRegistry idleStore"
    by (simp add: freshRegistry_def example_defs)
  have run: "performAll [CreateConversation talkDTO 10 True, PauseConversation 3] idleStore = pausedStore"
    by (simp add: performAll_def create_idle) (simp add: pauseConversation_def example_defs repo_defs)
  have mem: "alice\<lparr>agent_status := AgentActive\<rparr> \<in> set (agents pausedStore)"
    by (simp add: example_defs)
  have "(agent_status (alice\<lparr>agent_status := AgentActive\<rparr>) = AgentActive)
       = (\<exists>c\<in>set (conversations pausedStore).
            (conv_status c = Active \<or> conv_status c = Paused)
            \<and> agent_id (alice\<lparr>agent_status := AgentActive\<rparr>) \<in> set (conv_participants c))"
    using C1_active_iff_reserved[OF fresh, of "alice\<lparr>agent_status := AgentActive\<rparr>"
        "[CreateConversation talkDTO 10 True, PauseConversation 3]"] mem
    unfolding run by blast
  then have "\<exists>c\<in>set (conversations pausedStore).
       (conv_status c = Active \<or> conv_status c = Paused) \<and> 1 \<in> set (conv_participants c)"
    by (simp add: alice_def)
  with fresh run show ?thesis by blast
qed

text \<open>
  C9, as the code has it. In a store whose conversation ids are distinct,
  \<^verbatim>\<open>pauseAllConversations\<close> pauses exactly the conversations that are active and leaves the
  others as they are. When the store reports a failed update by a null result, that result
  is ignored and every other active conversation is still paused. When the store rejects an
  update, the sweep ends there with that error: the active conversations listed before the
  rejected one are paused, those after it are not attempted.
\<close>

theorem C9_pauseAll:
  assumes "distinct (map conv_id (conversations s))"
  shows "pauseAllConversations s = (Inr (), pausedWhere (\<lambda>c. conv_status c = Active) s)
       \<and> pauseAllConversationsWith (nullingUpdate F) s
           = (Inr (), pausedWhere (\<lambda>c. conv_status c = Active \<and> conv_id c \<notin> set F) s)
       \<and> pauseAllConversationsWith (rejectingUpdate F) s
           = (if \<exists>c\<in>set (conversations s). conv_status c = Active \<and> conv_id c \<in> set F
              then Inl StoreError else Inr (),
              pausedWhere (\<lambda>c. c \<in> set (takeWhile (\<lambda>c. conv_id c \<notin> set F)
                                    (filter (\<lambda>c. conv_status c = Active) (conversations s)))) s)"
proof -
  have "pauseAllConversations s
        = (Inr (), pausedWhere (\<lambda>c. conv_status c = Active \<and> conv_id c \<notin> set []) s)"
    unfolding pauseAllConversations_def nullingUpdate_Nil[symmetric] pauseAll_nulling[OF assms] ..
  then have a: "pauseAllConversations s = (Inr (), pausedWhere (\<lambda>c. conv_status c = Active) s)"
    by simp
  show ?thesis
    using a pauseAll_nulling[OF assms, of F] pauseAll_rejecting[OF assms, of F] by blast
qed

text \<open>C9 on the store with two active conversations: all are paused by the sweep, and a
  null result for conversation 3 does not keep conversation 7 from being paused.\<close>

theorem C9_witness:
  "distinct (map conv_id (conversations twoTalks))
 \<and> pauseAllConversations twoTalks
     = (Inr (), twoTalks\<lparr>conversations := [talk\<lparr>conv_status := Paused\<rparr>, meet\<lparr>conv_status := Paused\<rparr>]\<rparr>)
 \<and> pauseAllConversationsWith (nullingUpdate [3]) twoTalks
     = (Inr (), twoTalks\<lparr>conversations := [talk, meet\<lparr>conv_status := Paused\<rparr>]\<rparr>)
 \<and> pauseAllConversationsWith (rejectingUpdate [7]) twoTalks
     = (Inl StoreError, twoTalks\<lparr>conversations := [talk\<lparr>conv_status := Paused\<rparr>, meet]\<rparr>)"
proof -
  have d: "distinct (map conv_id (conversations twoTalks))"
    by (simp add: example_defs3)
  have st: "conv_status talk = Active" "conv_status meet = Active" "conv_id talk = 3" "conv_id meet = 7"
    "conversations twoTalks = [talk, meet]" "meet \<noteq> talk"
    by (simp_all add: example_defs3)
  show ?thesis
    using C9_pauseAll[OF d, of "[3]"] C9_pauseAll[OF d, of "[7]"] d
    by (simp add: pausedWhere_def st)
qed

text \<open>C9 as stated fails: when the store rejects the update of conversation 3, the sweep
  ends with that error and conversation 7, still active, was never attempted.\<close>

theorem C9_counterexample:
  "map conv_status (conversations twoTalks) = [Active, Active]
 \<and> pauseAllConversationsWith (rejectingUpdate [3]) twoTalks = (Inl StoreError, twoTalks)"
  by (simp add: pauseAllConversationsWith_def rejectingUpdate_def conv_findAll_def example_defs3)


section \<open>Claims about the generation driver and the scheduler\<close>

text \<open>
  C7, as the code has it, for a step of an enabled driver. A step whose \<^verbatim>\<open>try\<close> block
  throws increments the consecutive-error counter by one; after it the driver is enabled
  exactly when the counter is still below the threshold, and otherwise it is disabled with
  the reason "Too many consecutive API errors. Service temporarily disabled.". A step that
  succeeds resets the counter to zero and leaves the driver enabled. A failed step leaves
  agents and conversations untouched unless it is a step that evaluates the goal: there the
  evaluation is made after the new message was added, and may fail.
\<close>

theorem C7_error_counter:
  assumes "isEnabled (w_driver w)" and "hasClient (w_driver w)"
  shows "(\<forall>e. fst (processMessageTry now conversation w) = Inl e \<longrightarrow>
            consecutiveErrors (w_driver (processMessage now message conversation w))
              = consecutiveErrors (w_driver w) + 1
          \<and> isEnabled (w_driver (processMessage now message conversation w))
              = (consecutiveErrors (w_driver w) + 1 < maxConsecutiveErrors (w_driver w))
          \<and> disabledReason (w_driver (processMessage now message conversation w))
              = (if consecutiveErrors (w_driver w) + 1 < maxConsecutiveErrors (w_driver w)
                 then disabledReason (w_driver w)
                 else Some ''Too many consecutive API errors. Service temporarily disabled.'')
          \<and> (\<not> goalCheckDue conversation w
               \<longrightarrow> w_store (processMessage now message conversation w) = w_store w))
       \<and> (fst (processMessageTry now conversation w) = Inr () \<longrightarrow>
            consecutiveErrors (w_driver (processMessage now message conversation w)) = 0
          \<and> isEnabled (w_driver (processMessage now message conversation w))
          \<and> disabledReason (w_driver (processMessage now message conversation w))
              = disabledReason (w_driver w))"
proof (cases rule: processMessageTry_cases[of conversation w now])
  case (noContext e w1)
  have k: "w_store w1 = w_store w" "consecutiveErrors (w_driver w1) = consecutiveErrors (w_driver w)"
    "maxConsecutiveErrors (w_driver w1) = maxConsecutiveErrors (w_driver w)"
    "isEnabled (w_driver w1)" "disabledReason (w_driver w1) = disabledReason (w_driver w)"
    using touchContext_keeps[of conversation w] noContext(1) assms by simp_all
  show ?thesis
    unfolding processMessage_enabled[OF assms] noContext(2)
    using k by (simp add: handleApiError_fields)
next
  case (failed c w1 e w2)
  have k: "w_store w1 = w_store w" "consecutiveErrors (w_driver w1) = consecutiveErrors (w_driver w)"
    "maxConsecutiveErrors (w_driver w1) = maxConsecutiveErrors (w_driver w)"
    "isEnabled (w_driver w1)" "disabledReason (w_driver w1) = disabledReason (w_driver w)"
    "messageCheckThreshold (w_driver w1) = messageCheckThreshold (w_driver w)"
    using touchContext_keeps[of conversation w] failed(1) assms by simp_all
  have d: "w_driver w2 = w_driver w1"
    using generate_driver[of now conversation c w1] failed(2) by simp
  have st: "w_store w2 = w_store w" if "\<not> goalCheckDue conversation w"
  proof -
    have "\<not> (messageCheckThreshold (w_driver w1) \<noteq> 0
            \<and> ctx_messageCount c mod messageCheckThreshold (w_driver w1) = 0)"
      using that touchContext_count[OF failed(1)] k(6) by (simp add: goalCheckDue_def)
    then show ?thesis
      using generate_failure_store[of now conversation c w1 e] failed(2) k(1) by simp
  qed
  show ?thesis
    unfolding processMessage_enabled[OF assms] failed(3)
    using k d st by (simp add: handleApiError_fields)
next
  case (succeeded c w1 w2)
  have k: "isEnabled (w_driver w1)" "disabledReason (w_driver w1) = disabledReason (w_driver w)"
    using touchContext_keeps[of conversation w] succeeded(1) assms by simp_all
  have d: "w_driver w2 = w_driver w1"
    using generate_driver[of now conversation c w1] succeeded(2) by simp
  show ?thesis
    unfolding processMessage_enabled[OF assms] succeeded(3)
    using k d by (simp add: resetErrorCount_def)
qed

text \<open>C7 at three steps on the second conversation: an unparsable reply at counter 0 and at
  counter 9, and a well-formed reply at counter 3.\<close>

theorem C7_witness:
  "consecutiveErrors (w_driver (processMessage 100 meetMsg meet
      (chatWorld (readyDriver\<lparr>conversationContexts := [(7, meetCtx)], consecutiveErrors := 0\<rparr>)
         [Replies (Some ''nonsense'')]))) = 1
 \<and> isEnabled (w_driver (processMessage 100 meetMsg meet
      (chatWorld (readyDriver\<lparr>conversationContexts := [(7, meetCtx)], consecutiveErrors := 0\<rparr>)
         [Replies (Some ''nonsense'')])))
 \<and> w_store (processMessage 100 meetMsg meet
      (chatWorld (readyDriver\<lparr>conversationContexts := [(7, meetCtx)], consecutiveErrors := 0\<rparr>)
         [Replies (Some ''nonsense'')])) = twoTalks
 \<and> consecutiveErrors (w_driver (processMessage 100 meetMsg meet
      (chatWorld (readyDriver\<lparr>conversationContexts := [(7, meetCtx)], consecutiveErrors := 9\<rparr>)
         [Replies (Some ''nonsense'')]))) = 10
 \<and> \<not> isEnabled (w_driver (processMessage 100 meetMsg meet
      (chatWorld (readyDriver\<lparr>conversationContexts := [(7, meetCtx)], consecutiveErrors := 9\<rparr>)
         [Replies (Some ''nonsense'')])))
 \<and> disabledReason (w_driver (processMessage 100 meetMsg meet
      (chatWorld (readyDriver\<lparr>conversationContexts := [(7, meetCtx)], consecutiveErrors := 9\<rparr>)
         [Replies (Some ''nonsense'')])))
     = Some ''Too many consecutive API errors. Service temporarily disabled.''
 \<and> consecutiveErrors (w_driver (processMessage 100 meetMsg meet
      (chatWorld (readyDriver\<lparr>conversationContexts := [(7, meetCtx)], consecutiveErrors := 3\<rparr>)
         [Replies (Some ''Dave: fine'')]))) = 0"
proof -
  let ?w = "\<lambda>k script. chatWorld (readyDriver\<lparr>conversationContexts := [(7, meetCtx)], consecutiveErrors := k\<rparr>) script"
  have en: "isEnabled (w_driver (?w k script))" "hasClient (w_driver (?w k script))" for k script
    by (simp_all add: chatWorld_def ready_enabled)
  have nd: "\<not> goalCheckDue meet (?w k script)" for k script
    by (simp add: goalCheckDue_def chatWorld_def ready_enabled meet_def meetCtx_def)
  have fld: "consecutiveErrors (w_driver (?w k script)) = k"
    "maxConsecutiveErrors (w_driver (?w k script)) = 10"
    "w_store (?w k script) = twoTalks" for k script
    by (simp_all add: chatWorld_def ready_enabled)
  have f: "fst (processMessageTry 100 meet (?w k [Replies (Some ''nonsense'')])) = Inl MalformedResponse" for k
    by (simp add: try_nonsense)
  have s: "fst (processMessageTry 100 meet (?w 3 [Replies (Some ''Dave: fine'')])) = Inr ()"
    by (simp add: try_dave)
  note a = C7_error_counter[OF en[of 0 "[Replies (Some ''nonsense'')]"],
      where now = 100 and conversation = meet and message = meetMsg,
      THEN conjunct1, rule_format, OF f]
  note b = C7_error_counter[OF en[of 9 "[Replies (Some ''nonsense'')]"],
      where now = 100 and conversation = meet and message = meetMsg,
      THEN conjunct1, rule_format, OF f]
  note c = C7_error_counter[OF en[of 3 "[Replies (Some ''Dave: fine'')]"],
      where now = 100 and conversation = meet and message = meetMsg,
      THEN conjunct2, rule_format, OF s]
  show ?thesis
    using a b c nd[of 0 "[Replies (Some ''nonsense'')]"] by (simp add: fld)
qed

text \<open>C7 as stated fails: at counter 9, with a goal evaluation due at every message, a
  step adds the generated message to the conversation and then fails in the goal
  evaluation; the counter reaches 10 and the driver is disabled, but the conversation has
  changed.\<close>

theorem C7_counterexample:
  "isEnabled (readyDriver\<lparr>messageCheckThreshold := 1, consecutiveErrors := 9\<rparr>)
 \<and> fst (processMessageTry 100 meet
      (chatWorld (readyDriver\<lparr>messageCheckThreshold := 1, consecutiveErrors := 9\<rparr>)
         [Replies (Some ''Dave: fine''), Rejects])) = Inl ProviderError
 \<and> consecutiveErrors (w_driver (processMessage 100 meetMsg meet
      (chatWorld (readyDriver\<lparr>messageCheckThreshold := 1, consecutiveErrors := 9\<rparr>)
         [Replies (Some ''Dave: fine''), Rejects]))) = 10
 \<and> \<not> isEnabled (w_driver (processMessage 100 meetMsg meet
      (chatWorld (readyDriver\<lparr>messageCheckThreshold := 1, consecutiveErrors := 9\<rparr>)
         [Replies (Some ''Dave: fine''), Rejects])))
 \<and> conv_getMessages twoTalks 7 = [meetMsg]
 \<and> conv_getMessages (w_store (processMessage 100 meetMsg meet
      (chatWorld (readyDriver\<lparr>messageCheckThreshold := 1, consecutiveErrors := 9\<rparr>)
         [Replies (Some ''Dave: fine''), Rejects]))) 7 = [meetMsg, daveMsg]"
  by (simp add: driver_defs example_defs3 repo_defs)

text \<open>
  C10, as the code has it. When the driver is enabled and has a client, \<^verbatim>\<open>processMessage\<close>
  on a conversation with an initialised context leaves that context with its message count
  incremented by exactly one, whatever happens afterwards in the step. In particular, when
  the provider rejects the call, gives no content, or gives a reply that cannot be parsed,
  no message is added (the store is unchanged), the error is counted, and the message count
  has advanced all the same.
\<close>

theorem C10_messageCount_incremented:
  assumes "isEnabled (w_driver w)" and "hasClient (w_driver w)"
    and "map_of (conversationContexts (w_driver w)) (conv_id conversation) = Some c"
  shows "map_of (conversationContexts (w_driver (processMessage now message conversation w)))
             (conv_id conversation)
           = Some (c\<lparr>ctx_messageCount := ctx_messageCount c + 1\<rparr>)
       \<and> ((w_llm w = [] \<or> (\<exists>rs. w_llm w = Rejects # rs) \<or> (\<exists>rs. w_llm w = Replies None # rs)
            \<or> (\<exists>t rs. w_llm w = Replies (Some t) # rs
                  \<and> (t = [] \<or> isl (parseResponse t (ctx_participants c)))))
           \<longrightarrow> w_store (processMessage now message conversation w) = w_store w
             \<and> consecutiveErrors (w_driver (processMessage now message conversation w))
                 = consecutiveErrors (w_driver w) + 1)"
proof -
  define c' where "c' = c\<lparr>ctx_messageCount := ctx_messageCount c + 1\<rparr>"
  define w1 where "w1 = w\<lparr>w_driver := (w_driver w)
                 \<lparr>conversationContexts :=
                    AList.update (conv_id conversation) c' (conversationContexts (w_driver w))\<rparr>\<rparr>"
  have t: "touchContext conversation w = (Inr c', w1)"
    unfolding c'_def w1_def by (rule touchContext_present[OF assms(3)])
  have look: "map_of (conversationContexts (w_driver w1)) (conv_id conversation) = Some c'"
    by (simp add: w1_def update_conv')
  obtain r w2 where g: "generate now conversation c' w1 = (r, w2)" by force
  have d: "w_driver w2 = w_driver w1"
    using generate_driver[of now conversation c' w1] g by simp
  have pm: "processMessage now message conversation w
            = (case r of Inl e \<Rightarrow> w2\<lparr>w_driver := handleApiError (w_driver w2)\<rparr>
               | Inr u \<Rightarrow> w2\<lparr>w_driver := resetErrorCount (w_driver w2)\<rparr>)"
    unfolding processMessage_enabled[OF assms(1,2)] processMessageTry_def t
    by (simp add: g split: sum.splits)
  have A: "map_of (conversationContexts (w_driver (processMessage now message conversation w)))
             (conv_id conversation) = Some c'"
    unfolding pm using look d
    by (cases r) (simp_all add: handleApiError_fields resetErrorCount_def)
  have B: "w_store (processMessage now message conversation w) = w_store w
         \<and> consecutiveErrors (w_driver (processMessage now message conversation w))
             = consecutiveErrors (w_driver w) + 1"
    if h: "w_llm w = [] \<or> (\<exists>rs. w_llm w = Rejects # rs) \<or> (\<exists>rs. w_llm w = Replies None # rs)
            \<or> (\<exists>t rs. w_llm w = Replies (Some t) # rs
                  \<and> (t = [] \<or> isl (parseResponse t (ctx_participants c))))"
  proof -
    have h1: "w_llm w1 = [] \<or> (\<exists>rs. w_llm w1 = Rejects # rs) \<or> (\<exists>rs. w_llm w1 = Replies None # rs)
            \<or> (\<exists>t rs. w_llm w1 = Replies (Some t) # rs
                  \<and> (t = [] \<or> isl (parseResponse t (ctx_participants c'))))"
      using h by (simp add: w1_def c'_def)
    have "w_store w2 = w_store w1 \<and> isl r"
      using generate_rejected_store[OF h1, of now conversation] g by simp
    then show ?thesis
      unfolding pm using d
      by (cases r) (simp_all add: handleApiError_fields w1_def)
  qed
  show ?thesis using A B unfolding c'_def by blast
qed

text \<open>C10 at a step whose reply cannot be parsed: the count goes from 1 to 2, the store is
  unchanged and one error is counted.\<close>

theorem C10_witness:
  "map_of (conversationContexts (w_driver (processMessage 100 meetMsg meet
      (chatWorld (readyDriver\<lparr>conversationContexts := [(7, meetCtx)], consecutiveErrors := 0\<rparr>)
         [Replies (Some ''nonsense'')])))) 7
   = Some (meetCtx\<lparr>ctx_messageCount := 2\<rparr>)
 \<and> w_store (processMessage 100 meetMsg meet
      (chatWorld (readyDriver\<lparr>conversationContexts := [(7, meetCtx)], consecutiveErrors := 0\<rparr>)
         [Replies (Some ''nonsense'')])) = twoTalks
 \<and> consecutiveErrors (w_driver (processMessage 100 meetMsg meet
      (chatWorld (readyDriver\<lparr>conversationContexts := [(7, meetCtx)], consecutiveErrors := 0\<rparr>)
         [Replies (Some ''nonsense'')]))) = 1"
proof -
  let ?w = "chatWorld (readyDriver\<lparr>conversationContexts := [(7, meetCtx)], consecutiveErrors := 0\<rparr>)
              [Replies (Some ''nonsense'')]"
  have en: "isEnabled (w_driver ?w)" "hasClient (w_driver ?w)"
    by (simp_all add: chatWorld_def ready_enabled)
  have cx: "map_of (conversationContexts (w_driver ?w)) (conv_id meet) = Some meetCtx"
    by (simp add: chatWorld_def meet_def)
  have bad: "w_llm ?w = [] \<or> (\<exists>rs. w_llm ?w = Rejects # rs) \<or> (\<exists>rs. w_llm ?w = Replies None # rs)
            \<or> (\<exists>t rs. w_llm ?w = Replies (Some t) # rs
                  \<and> (t = [] \<or> isl (parseResponse t (ctx_participants meetCtx))))"
    by (simp add: chatWorld_def parseResponse_def)
  have fld: "w_store ?w = twoTalks" "consecutiveErrors (w_driver ?w) = 0" "conv_id meet = 7"
    "ctx_messageCount meetCtx = 1"
    by (simp_all add: chatWorld_def meet_def meetCtx_def)
  note t = C10_messageCount_incremented[OF en cx, where now = 100 and message = meetMsg]
  from t[THEN conjunct1] t[THEN conjunct2, rule_format, OF bad]
  show ?thesis by (simp add: fld)
qed

text \<open>C10 as stated fails: a driver that is disabled returns at once, and the message count
  of the initialised context stays at 1.\<close>

theorem C10_counterexample:
  "map_of (conversationContexts
      (disableService ''Too many consecutive API errors. Service temporarily disabled.''
         (readyDriver\<lparr>conversationContexts := [(7, meetCtx)], consecutiveErrors := 10\<rparr>))) (conv_id meet)
   = Some meetCtx
 \<and> ctx_messageCount meetCtx = 1
 \<and> map_option ctx_messageCount
      (map_of (conversationContexts (w_driver (processMessage 100 meetMsg meet
         (chatWorld
            (disableService ''Too many consecutive API errors. Service temporarily disabled.''
               (readyDriver\<lparr>conversationContexts := [(7, meetCtx)], consecutiveErrors := 10\<rparr>))
            [Replies (Some ''Dave: fine'')])))) (conv_id meet))
   = Some 1"
  by (simp add: processMessage_def chatWorld_def disableService_def readyDriver_def
        newOpenAIService_def meet_def meetCtx_def)

text \<open>
  C6 fails on the code. The scheduler, with a minimum interval of 1000 ms, advanced
  conversation 7 at time 4999 and sweeps again at time 5000. Conversation 3 has no message
  yet and is due; for it the sweep calls \<^verbatim>\<open>processActiveConversations\<close>, which steps
  every active conversation: conversation 7 gets a generated message although only 1 ms has
  passed since its last advance. With a scheduler that has advanced nothing yet,
  conversation 7 is stepped by that call and once more for itself: two generation steps
  (and two new messages) in one sweep.
\<close>

theorem C6_sweep_advances_ineligible:
  "int 5000 - int 4999 < int (processInterval busyScheduler)
 \<and> map_of (lastMessageTime busyScheduler) 7 = Some 4999
 \<and> map (\<lambda>c. (conv_id c, conv_status c, length (conv_messages c))) (conversations twoTalks)
    = [(3, Active, 0), (7, Active, 1)]
 \<and> map (\<lambda>c. (conv_id c, length (conv_messages c)))
      (conversations (w_store (snd (tick 5000
          (busyScheduler, chatWorld readyDriver [Replies (Some ''Dave: fine'')])))))
    = [(3, 1), (7, 2)]
 \<and> lastMessageTime (fst (tick 5000
          (busyScheduler, chatWorld readyDriver [Replies (Some ''Dave: fine'')])))
    = [(7, 4999), (3, 5000)]
 \<and> map (\<lambda>c. (conv_id c, length (conv_messages c)))
      (conversations (w_store (snd (tick 5000
          (newScheduler, chatWorld readyDriver
             [Replies (Some ''Dave: fine''), Replies (Some ''carol: good'')])))))
    = [(3, 1), (7, 3)]
 \<and> map_option ctx_messageCount
      (map_of (conversationContexts (w_driver (snd (tick 5000
          (newScheduler, chatWorld readyDriver
             [Replies (Some ''Dave: fine''), Replies (Some ''carol: good'')]))))) 7)
    = Some 2"
  by (simp add: scheduler_defs driver_defs example_defs3 repo_defs)

end
